theory Spec2Isabelle
  imports Complex_Main "HOL-Library.Word" "HOL-Library.Multiset" "HOL-Library.Monad_Syntax"
begin

unbundle bit_operations_syntax

section \<open>3D picking (wm\_widgets.c, lines 967--1097)\<close>

text \<open>
  \<^verbatim>\<open>GLuint\<close> is an unsigned 32-bit integer; comparisons on it are unsigned, as \<open><\<close> on
  words is. The select buffer \<^verbatim>\<open>GLuint buffer[64]\<close> holds four words per hit: the entry
  at \<open>4 * a + 1\<close> is the depth of hit \<open>a\<close> and the entry at \<open>4 * a + 3\<close> its id. A read
  outside the buffer is undefined behaviour in C and \<open>None\<close> here.
\<close>

type_synonym GLuint = "32 word"

definition buffer_at :: "GLuint list \<Rightarrow> nat \<Rightarrow> GLuint option" where
  "buffer_at buffer i = (if i < length buffer then Some (buffer ! i) else None)"

text \<open>
  The loop of lines 1035--1043,
  \<^verbatim>\<open>for (a = 0; a < hits; a++) { dep = buffer[4 * a + 1]; val = buffer[4 * a + 3];
      if (minval == -1 || dep < mindep) { mindep = dep; minval = val; } }\<close>
  with \<open>mindep\<close> and \<open>minval\<close> of type \<^verbatim>\<open>GLuint\<close>: the test \<^verbatim>\<open>minval == -1\<close> compares
  with \<open>0xFFFFFFFF\<close>, which is \<open>- 1\<close> on 32-bit words.
\<close>

function find_min_hit :: "GLuint list \<Rightarrow> int \<Rightarrow> int \<Rightarrow> GLuint \<Rightarrow> GLuint \<Rightarrow> GLuint option" where
  "find_min_hit buffer hits a mindep minval =
     (if 0 \<le> a \<and> a < hits then
        (case buffer_at buffer (4 * nat a + 1) of
           None \<Rightarrow> None
         | Some dep \<Rightarrow>
            (case buffer_at buffer (4 * nat a + 3) of
               None \<Rightarrow> None
             | Some val \<Rightarrow>
                 if minval = - 1 \<or> dep < mindep
                 then find_min_hit buffer hits (a + 1) dep val
                 else find_min_hit buffer hits (a + 1) mindep minval))
      else Some minval)"
  by pat_completeness auto
termination
  by (relation "measure (\<lambda>(buffer, hits, a, mindep, minval). nat (hits - a))") auto

text \<open>
  Lines 1024--1048 of \<^verbatim>\<open>wm_widget_find_highlighted_3D_intern\<close>: the value returned for a
  hit count and a buffer. The function returns \<^verbatim>\<open>int\<close>, so the \<^verbatim>\<open>GLuint\<close> is converted
  (\<open>sint\<close>); \<open>- 1\<close> stands for no hit.
\<close>

definition find_highlighted_3D_resolve :: "int \<Rightarrow> GLuint list \<Rightarrow> int option" where
  "find_highlighted_3D_resolve hits buffer =
     (if hits = 1 then map_option sint (buffer_at buffer 3)
      else if hits > 1 then map_option sint (find_min_hit buffer hits 0 0 (- 1))
      else Some (- 1))"

text \<open>The (depth, id) records of the first \<open>hits\<close> hits of a buffer.\<close>

definition hit_records :: "nat \<Rightarrow> GLuint list \<Rightarrow> (GLuint \<times> GLuint) list" where
  "hit_records hits buffer = map (\<lambda>a. (buffer ! (4 * a + 1), buffer ! (4 * a + 3))) [0..<hits]"

text \<open>
  Following the spec's words: the id of the record of minimum depth, the first such
  record in scan order when several share that depth.
\<close>

fun first_min_depth :: "(GLuint \<times> GLuint) \<Rightarrow> (GLuint \<times> GLuint) list \<Rightarrow> (GLuint \<times> GLuint)" where
  "first_min_depth best [] = best"
| "first_min_depth best (r # rs) = first_min_depth (if fst r < fst best then r else best) rs"

definition nearest_id :: "(GLuint \<times> GLuint) list \<Rightarrow> GLuint" where
  "nearest_id recs = snd (first_min_depth (hd recs) (tl recs))"

section \<open>Widgets, widget groups and the widget map (wm\_widgets.c)\<close>

text \<open>
  A pointer is an address; \<open>0\<close> is the null pointer. Widgets live in a heap that maps
  the addresses in use to widget structs. Reading through a null or dangling pointer is
  undefined behaviour in C; every function below returns \<open>None\<close> there.
\<close>

type_synonym ptr = nat

abbreviation NULL :: ptr where
  "NULL \<equiv> 0"

text \<open>
  Modelled from the spec: the \<^verbatim>\<open>WM_WIDGET_*\<close> flag constants are declared in a header
  that is not part of the sources at hand. The spec lists the state flags as
  ``independent, combinable'', so each is a bit of its own in \<^verbatim>\<open>wmWidget.flag\<close>
  (an \<^verbatim>\<open>int\<close>). Only the four flags that the functions below test or write are needed.
\<close>

definition WM_WIDGET_HIGHLIGHT :: "32 word" where
  "WM_WIDGET_HIGHLIGHT = 1"

definition WM_WIDGET_ACTIVE :: "32 word" where
  "WM_WIDGET_ACTIVE = 2"

definition WM_WIDGET_SELECTED :: "32 word" where
  "WM_WIDGET_SELECTED = 4"

definition WM_WIDGET_HIDDEN :: "32 word" where
  "WM_WIDGET_HIDDEN = 128"

text \<open>
  The fields of \<^verbatim>\<open>wmWidget\<close> that the widget map reads and writes. The callbacks are
  external code: a callback field records whether the function pointer is set
  (\<open>get_cursor\<close>: the cursor it returns), and a call of it is an entry of the trace.
  \<^verbatim>\<open>opname\<close> is \<open>None\<close> for a null string pointer. The geometry fields (origin, offset,
  colours, the \<^verbatim>\<open>float\<close> scale written by \<^verbatim>\<open>widget_calculate_scale\<close>) are left out:
  no function below branches on them.
\<close>

record wmWidget =
  idname :: string
  flag :: "32 word"
  highlighted_part :: "8 word"
  wgroup :: ptr
  opname :: "string option"
  invoke :: bool
  handler :: bool
  select :: bool
  get_cursor :: "int option"
  render_3d_intersection :: bool
  interaction_data :: ptr

record bContext =
  ctx_window :: nat
  ctx_region :: nat

record wmEvent =
  mval :: "int \<times> int"

record rctf =
  xmin :: real
  xmax :: real
  ymin :: real
  ymax :: real

datatype cursor = CURSOR_STD | Cursor int

datatype sel_action = SEL_SELECT | SEL_DESELECT

text \<open>
  Calls into code outside the widget map, in the order they happen: memory that is
  released, callbacks of a widget, and functions of the window manager and the GPU
  selection.
\<close>

datatype call =
    MEM_freeN ptr
  | Widget_data_free ptr
  | Interaction_data_free ptr
  | WM_cursor_set nat cursor
  | ED_region_tag_redraw nat
  | WM_event_add_mousemove
  | Widget_invoke ptr
  | Widget_select ptr sel_action
  | WM_operator_name_call_ptr string ptr
  | Printf string
  | GPU_select rctf

text \<open>
  A widget group type holds the visibility predicate \<^verbatim>\<open>poll\<close> and the factory
  \<^verbatim>\<open>create\<close>, both optional function pointers into external code. The factory is taken
  as the list of widgets it registers (\<^verbatim>\<open>WM_widget_new\<close>, \<^verbatim>\<open>wm_widget_register\<close>), in
  registration order and as they are when the factory returns.
\<close>

record wmWidgetGroupType =
  poll :: "(bContext \<Rightarrow> bool) option"
  create :: "(bContext \<Rightarrow> wmWidget list) option"

record wmWidgetGroup =
  group_addr :: ptr
  gtype :: wmWidgetGroupType
  widgets :: "ptr list"

text \<open>
  The state: the widget map (\<^verbatim>\<open>widgetgroups\<close> and the fields of \<^verbatim>\<open>wmap_context\<close>), the
  memory its pointers lead into, the file-level hash table \<^verbatim>\<open>draw_widgets\<close> (\<open>None\<close>
  while the pointer is null), and the trace of external calls. \<^verbatim>\<open>selected_widgets\<close> is
  null (\<open>None\<close>) or an allocated array of widget pointers. Memory is handed out at
  increasing addresses, \<open>next_addr\<close> being the next one.
\<close>

record wm_state =
  heap :: "ptr \<Rightarrow> wmWidget option"
  next_addr :: ptr
  widgetgroups :: "wmWidgetGroup list"
  highlighted_widget :: ptr
  active_widget :: ptr
  activegroup :: ptr
  selected_widgets :: "ptr list option"
  tot_selected :: int
  draw_widgets :: "(string \<Rightarrow> ptr option) option"
  trace :: "call list"

definition deref :: "wm_state \<Rightarrow> ptr \<Rightarrow> wmWidget option" where
  "deref s p = (if p = NULL then None else heap s p)"

definition store :: "ptr \<Rightarrow> wmWidget \<Rightarrow> wm_state \<Rightarrow> wm_state" where
  "store p w s = s\<lparr>heap := (heap s)(p \<mapsto> w)\<rparr>"

definition log_call :: "call \<Rightarrow> wm_state \<Rightarrow> wm_state" where
  "log_call c s = s\<lparr>trace := trace s @ [c]\<rparr>"

text \<open>\<^verbatim>\<open>(flag & bit) != 0\<close>.\<close>

definition flag_set :: "32 word \<Rightarrow> 32 word \<Rightarrow> bool" where
  "flag_set f b = (f AND b \<noteq> 0)"

text \<open>\<^verbatim>\<open>!wgroup->type->poll || wgroup->type->poll(C, wgroup->type)\<close>.\<close>

definition poll_ok :: "bContext \<Rightarrow> wmWidgetGroup \<Rightarrow> bool" where
  "poll_ok C wg = (case poll (gtype wg) of None \<Rightarrow> True | Some f \<Rightarrow> f C)"

text \<open>\<^verbatim>\<open>BLI_ghash_reinsert\<close> and \<^verbatim>\<open>BLI_ghash_lookup\<close> on \<^verbatim>\<open>draw_widgets\<close>.\<close>

definition ghash_reinsert :: "string \<Rightarrow> ptr \<Rightarrow> wm_state \<Rightarrow> wm_state option" where
  "ghash_reinsert k p s =
     (case draw_widgets s of
        None \<Rightarrow> None
      | Some m \<Rightarrow> Some (s\<lparr>draw_widgets := Some (m(k \<mapsto> p))\<rparr>))"

definition ghash_lookup :: "wm_state \<Rightarrow> string \<Rightarrow> ptr option" where
  "ghash_lookup s k =
     (case draw_widgets s of
        None \<Rightarrow> None
      | Some m \<Rightarrow> Some (case m k of None \<Rightarrow> NULL | Some p \<Rightarrow> p))"

text \<open>
  \<^verbatim>\<open>wm_widget_data_free\<close> releases the property arrays owned by the widget, not the
  widget itself.
\<close>

definition wm_widget_data_free :: "ptr \<Rightarrow> wm_state \<Rightarrow> wm_state option" where
  "wm_widget_data_free widget s =
     do { w \<leftarrow> deref s widget; Some (log_call (Widget_data_free widget) s) }"

text \<open>\<^verbatim>\<open>MEM_SAFE_FREE(widget)\<close> for a widget that is not null.\<close>

definition free_widget :: "ptr \<Rightarrow> wm_state \<Rightarrow> wm_state option" where
  "free_widget widget s =
     do { w \<leftarrow> deref s widget;
          Some (log_call (MEM_freeN widget) (s\<lparr>heap := (heap s)(widget := None)\<rparr>)) }"

text \<open>
  \<^verbatim>\<open>wm_widget_delete\<close>. Unlinking the widget from its list is done by the caller here
  (the list is a field of the group).
\<close>

definition wm_widget_delete :: "ptr \<Rightarrow> wm_state \<Rightarrow> wm_state option" where
  "wm_widget_delete widget s = do { s1 \<leftarrow> wm_widget_data_free widget s; free_widget widget s1 }"

definition widget_highlight_update :: "ptr \<Rightarrow> ptr \<Rightarrow> wm_state \<Rightarrow> wm_state option" where
  "widget_highlight_update old new s =
     do { wn \<leftarrow> deref s new;
          let s1 = store new (wn\<lparr>flag := flag wn OR WM_WIDGET_HIGHLIGHT\<rparr>) s;
          let s2 = s1\<lparr>highlighted_widget := new\<rparr>;
          wo \<leftarrow> deref s2 old;
          wn2 \<leftarrow> deref s2 new;
          Some (store new (wn2\<lparr>highlighted_part := highlighted_part wo\<rparr>) s2) }"

subsection \<open>\<^verbatim>\<open>WM_widgetmap_widgets_update\<close> (lines 225--323)\<close>

text \<open>
  Lines 248--266, the first loop over \<^verbatim>\<open>wgroup->widgets\<close>: a selected widget is
  unlinked and kept, a highlighted one is unlinked and remembered in the local
  \<^verbatim>\<open>highlighted\<close>, any other is deleted. The second component of the pair is that local
  variable. Every widget leaves the list, so the caller continues with an empty list.
\<close>

fun delete_widgets :: "ptr list \<Rightarrow> wm_state \<times> ptr \<Rightarrow> (wm_state \<times> ptr) option" where
  "delete_widgets [] (s, highlighted) = Some (s, highlighted)"
| "delete_widgets (widget # rest) (s, highlighted) =
     do { w \<leftarrow> deref s widget;
          if flag_set (flag w) WM_WIDGET_SELECTED then delete_widgets rest (s, highlighted)
          else if flag_set (flag w) WM_WIDGET_HIGHLIGHT then delete_widgets rest (s, widget)
          else do { s1 \<leftarrow> wm_widget_delete widget s; delete_widgets rest (s1, highlighted) } }"

text \<open>
  Line 269, \<^verbatim>\<open>wgroup->type->create(C, wgroup)\<close>: each widget of the factory is allocated
  (\<^verbatim>\<open>WM_widget_new\<close>), gets \<^verbatim>\<open>widget->wgroup = wgroup\<close> and is added at the tail of the
  group's list (\<^verbatim>\<open>wm_widget_register\<close>). The result is the list of new addresses.
\<close>

fun register_widgets :: "ptr \<Rightarrow> wmWidget list \<Rightarrow> wm_state \<Rightarrow> ptr list \<times> wm_state" where
  "register_widgets g [] s = ([], s)"
| "register_widgets g (w # ws) s =
     (let p = next_addr s;
          s1 = (store p (w\<lparr>wgroup := g\<rparr>) s)\<lparr>next_addr := p + 1\<rparr>;
          (ps, s2) = register_widgets g ws s1
      in (p # ps, s2))"

text \<open>Lines 272--279: every widget of the list that is not hidden enters the table.\<close>

fun insert_widgets :: "ptr list \<Rightarrow> wm_state \<Rightarrow> wm_state option" where
  "insert_widgets [] s = Some s"
| "insert_widgets (widget # rest) s =
     do { w \<leftarrow> deref s widget;
          if flag_set (flag w) WM_WIDGET_HIDDEN then insert_widgets rest s
          else do { s1 \<leftarrow> ghash_reinsert (idname w) widget s; insert_widgets rest s1 } }"

text \<open>
  Lines 245--284, the loop over the groups. The result holds the groups with their new
  widget lists, the state and the local \<^verbatim>\<open>highlighted\<close>.
\<close>

fun update_groups ::
  "bContext \<Rightarrow> wmWidgetGroup list \<Rightarrow> wm_state \<times> ptr \<Rightarrow> (wmWidgetGroup list \<times> wm_state \<times> ptr) option" where
  "update_groups C [] (s, highlighted) = Some ([], s, highlighted)"
| "update_groups C (wg # rest) (s, highlighted) =
     (if poll_ok C wg then
        do { (s1, highlighted1) \<leftarrow> delete_widgets (widgets wg) (s, highlighted);
             let (ps, s2) = (case create (gtype wg) of
                               None \<Rightarrow> ([], s1)
                             | Some f \<Rightarrow> register_widgets (group_addr wg) (f C) s1);
             s3 \<leftarrow> insert_widgets ps s2;
             (rest', s4, highlighted4) \<leftarrow> update_groups C rest (s3, highlighted1);
             Some (wg\<lparr>widgets := ps\<rparr> # rest', s4, highlighted4) }
      else
        do { (rest', s4, highlighted4) \<leftarrow> update_groups C rest (s, highlighted);
             Some (wg # rest', s4, highlighted4) })"

text \<open>Lines 286--298.\<close>

definition update_highlighted :: "ptr \<Rightarrow> wm_state \<Rightarrow> wm_state option" where
  "update_highlighted highlighted s =
     (if highlighted \<noteq> NULL then
        do { wo \<leftarrow> deref s highlighted;
             highlighted_new \<leftarrow> ghash_lookup s (idname wo);
             if highlighted_new \<noteq> NULL then
               do { s1 \<leftarrow> widget_highlight_update highlighted highlighted_new s;
                    wm_widget_delete highlighted s1 }
             else
               do { s1 \<leftarrow> free_widget highlighted s;
                    Some (s1\<lparr>highlighted_widget := NULL\<rparr>) } }
      else Some s)"

text \<open>
  Lines 302--319, the body of the loop over the selected widgets for one index \<open>i\<close>.
  Without a replacement of the same name (\<^verbatim>\<open>if (!sel_new) continue;\<close>) nothing is written.
\<close>

definition update_selected_at :: "nat \<Rightarrow> wm_state \<Rightarrow> wm_state option" where
  "update_selected_at i s =
     do { sel \<leftarrow> selected_widgets s;
          sel_old \<leftarrow> (if i < length sel then Some (sel ! i) else None);
          wo \<leftarrow> deref s sel_old;
          sel_new \<leftarrow> ghash_lookup s (idname wo);
          if sel_new = NULL then Some s
          else
            do { s1 \<leftarrow> (if flag_set (flag wo) WM_WIDGET_HIGHLIGHT
                         then widget_highlight_update sel_old sel_new s else Some s);
                 s2 \<leftarrow> wm_widget_data_free sel_old s1;
                 wn \<leftarrow> deref s2 sel_new;
                 let s3 = store sel_new (wn\<lparr>flag := flag wn OR WM_WIDGET_SELECTED\<rparr>) s2;
                 Some (s3\<lparr>selected_widgets := Some (sel[i := sel_new])\<rparr>) } }"

text \<open>
  Lines 301--320: \<^verbatim>\<open>for (int i = 0; i < tot_selected; i++)\<close>. The body does not write
  \<^verbatim>\<open>tot_selected\<close>, so the indices are those below its value at loop entry.
\<close>

fun update_selected :: "nat list \<Rightarrow> wm_state \<Rightarrow> wm_state option" where
  "update_selected [] s = Some s"
| "update_selected (i # is) s = do { s1 \<leftarrow> update_selected_at i s; update_selected is s1 }"

text \<open>
  The whole function. \<^verbatim>\<open>wmap\<close> is taken to be non-null (its first line reads through
  it). With an active widget only that widget enters the table; otherwise the groups are
  regenerated and the highlighted and the selected widgets are reconciled.
\<close>

definition WM_widgetmap_widgets_update :: "bContext \<Rightarrow> wm_state \<Rightarrow> wm_state option" where
  "WM_widgetmap_widgets_update C s0 =
     (let widget = active_widget s0;
          s = (if draw_widgets s0 = None then s0\<lparr>draw_widgets := Some Map.empty\<rparr> else s0)
      in if widget \<noteq> NULL then
           do { w \<leftarrow> deref s widget;
                if \<not> flag_set (flag w) WM_WIDGET_HIDDEN
                then ghash_reinsert (idname w) widget s else Some s }
         else if widgetgroups s \<noteq> [] then
           do { (groups, s1, highlighted) \<leftarrow> update_groups C (widgetgroups s) (s, NULL);
                let s2 = s1\<lparr>widgetgroups := groups\<rparr>;
                s3 \<leftarrow> update_highlighted highlighted s2;
                if selected_widgets s3 \<noteq> None
                then update_selected [0..<nat (tot_selected s3)] s3 else Some s3 }
         else Some s)"

subsection \<open>Highlight, selection and activation (lines 694--751 and 1130--1231)\<close>

text \<open>
  \<^verbatim>\<open>wm_widgetmap_set_highlighted_widget\<close>. The context pointer may be null here
  (\<open>None\<close>). The condition of line 1132 reads \<^verbatim>\<open>widget->highlighted_part\<close> only when
  \<^verbatim>\<open>widget\<close> is the highlighted widget and not null.
\<close>

definition wm_widgetmap_set_highlighted_widget ::
  "bContext option \<Rightarrow> ptr \<Rightarrow> 8 word \<Rightarrow> wm_state \<Rightarrow> wm_state option" where
  "wm_widgetmap_set_highlighted_widget C widget part s =
     do { changed \<leftarrow> (if widget \<noteq> highlighted_widget s then Some True
                       else if widget = NULL then Some False
                       else do { w \<leftarrow> deref s widget; Some (part \<noteq> highlighted_part w) });
          if changed then
            do { s1 \<leftarrow> (if highlighted_widget s \<noteq> NULL then
                           do { h \<leftarrow> deref s (highlighted_widget s);
                                Some (store (highlighted_widget s)
                                       (h\<lparr>flag := flag h AND NOT WM_WIDGET_HIGHLIGHT, highlighted_part := 0\<rparr>) s) }
                         else Some s);
                 let s2 = s1\<lparr>highlighted_widget := widget\<rparr>;
                 s3 \<leftarrow> (if widget \<noteq> NULL then
                           do { w \<leftarrow> deref s2 widget;
                                let s' = (store widget
                                           (w\<lparr>flag := flag w OR WM_WIDGET_HIGHLIGHT, highlighted_part := part\<rparr>) s2)
                                         \<lparr>activegroup := wgroup w\<rparr>;
                                Some (case (C, get_cursor w) of
                                        (Some c, Some cur) \<Rightarrow> log_call (WM_cursor_set (ctx_window c) (Cursor cur)) s'
                                      | _ \<Rightarrow> s') }
                         else
                           (let s' = s2\<lparr>activegroup := NULL\<rparr>
                            in Some (case C of
                                       Some c \<Rightarrow> log_call (WM_cursor_set (ctx_window c) CURSOR_STD) s'
                                     | None \<Rightarrow> s')));
                 Some (case C of
                         Some c \<Rightarrow> log_call (ED_region_tag_redraw (ctx_region c)) s3
                       | None \<Rightarrow> s3) }
          else Some s }"

text \<open>
  \<^verbatim>\<open>MEM_reallocN\<close> on the array of selected widgets: the entries that fit are kept. New
  entries are not initialised in C; they are null here, and every caller writes them
  before they are read.
\<close>

definition MEM_reallocN :: "ptr list option \<Rightarrow> nat \<Rightarrow> ptr list" where
  "MEM_reallocN sel n =
     (case sel of
        None \<Rightarrow> replicate n NULL
      | Some xs \<Rightarrow> take n xs @ replicate (n - length xs) NULL)"

text \<open>\<^verbatim>\<open>wm_widget_select\<close>, lines 731--751.\<close>

definition wm_widget_select :: "bContext \<Rightarrow> ptr \<Rightarrow> wm_state \<Rightarrow> wm_state option" where
  "wm_widget_select C widget s =
     (if widget = NULL then Some s
      else
        do { w \<leftarrow> deref s widget;
             if flag_set (flag w) WM_WIDGET_SELECTED then Some s
             else
               do { let tot = tot_selected s + 1;
                    let sel = MEM_reallocN (selected_widgets s) (nat tot);
                    sel1 \<leftarrow> (if 0 \<le> tot - 1 \<and> nat (tot - 1) < length sel
                              then Some (sel[nat (tot - 1) := widget]) else None);
                    let s1 = s\<lparr>tot_selected := tot, selected_widgets := Some sel1\<rparr>;
                    let s2 = store widget (w\<lparr>flag := flag w OR WM_WIDGET_SELECTED\<rparr>) s1;
                    let s3 = (if select w then log_call (Widget_select widget SEL_SELECT) s2 else s2);
                    w3 \<leftarrow> deref s3 widget;
                    s4 \<leftarrow> wm_widgetmap_set_highlighted_widget (Some C) widget (highlighted_part w3) s3;
                    Some (log_call (ED_region_tag_redraw (ctx_region C)) s4) } })"

text \<open>
  \<^verbatim>\<open>widget_compare\<close>: two widgets are the same when their \<^verbatim>\<open>idname\<close>s are equal strings.
\<close>

definition widget_compare :: "wm_state \<Rightarrow> ptr \<Rightarrow> ptr \<Rightarrow> bool option" where
  "widget_compare s a b = do { wa \<leftarrow> deref s a; wb \<leftarrow> deref s b; Some (idname wa = idname wb) }"

text \<open>
  Lines 705--707 of \<^verbatim>\<open>wm_widget_deselect\<close>:
  \<^verbatim>\<open>for (int j = i; j < tot_selected - 1; j++) (*sel)[j] = (*sel)[j + 1];\<close>
\<close>

function shift_selected :: "int \<Rightarrow> int \<Rightarrow> ptr list \<Rightarrow> ptr list option" where
  "shift_selected j tot sel =
     (if j < tot - 1 then
        (if 0 \<le> j \<and> nat (j + 1) < length sel
         then shift_selected (j + 1) tot (sel[nat j := sel ! nat (j + 1)])
         else None)
      else Some sel)"
  by pat_completeness auto
termination
  by (relation "measure (\<lambda>(j, tot, sel). nat (tot - 1 - j))") auto

text \<open>
  Lines 703--710: the first entry that compares equal to \<^verbatim>\<open>widget\<close> is removed by moving
  the later entries down; the scan stops there (\<^verbatim>\<open>break\<close>).
\<close>

function remove_selected :: "wm_state \<Rightarrow> ptr \<Rightarrow> int \<Rightarrow> int \<Rightarrow> ptr list \<Rightarrow> ptr list option" where
  "remove_selected s widget i tot sel =
     (if i < tot then
        (if 0 \<le> i \<and> nat i < length sel then
           do { same \<leftarrow> widget_compare s (sel ! nat i) widget;
                if same then shift_selected i tot sel
                else remove_selected s widget (i + 1) tot sel }
         else None)
      else Some sel)"
  by pat_completeness auto
termination
  by (relation "measure (\<lambda>(s, widget, i, tot, sel). nat (tot - i))") auto

text \<open>
  \<^verbatim>\<open>wm_widget_deselect\<close>, lines 694--725. \<^verbatim>\<open>BLI_assert\<close> is empty in a release build. With
  \<^verbatim>\<open>selected_widgets\<close> null the scan would read through a null pointer unless
  \<^verbatim>\<open>tot_selected\<close> is not positive.
\<close>

definition wm_widget_deselect :: "bContext \<Rightarrow> ptr \<Rightarrow> wm_state \<Rightarrow> wm_state option" where
  "wm_widget_deselect C widget s =
     do { let tot = tot_selected s;
          sel1 \<leftarrow> (case selected_widgets s of
                     None \<Rightarrow> if 0 < tot then None else Some None
                   | Some sel \<Rightarrow> map_option Some (remove_selected s widget 0 tot sel));
          let s1 = (if tot \<le> 1 then s\<lparr>selected_widgets := None, tot_selected := 0\<rparr>
                    else s\<lparr>selected_widgets := Some (MEM_reallocN sel1 (nat tot)),
                           tot_selected := tot - 1\<rparr>);
          w \<leftarrow> deref s1 widget;
          let s2 = store widget (w\<lparr>flag := flag w AND NOT WM_WIDGET_SELECTED\<rparr>) s1;
          Some (log_call (ED_region_tag_redraw (ctx_region C)) s2) }"

text \<open>
  \<^verbatim>\<open>wm_widgetmap_set_active_widget\<close>, lines 1171--1231. Two external functions are
  parameters: \<open>operatortype_find\<close> tells whether \<^verbatim>\<open>WM_operatortype_find\<close> finds an operator
  of that name, and \<open>operator_call\<close> is what \<^verbatim>\<open>WM_operator_name_call_ptr\<close>, called with the
  \<^verbatim>\<open>opptr\<close> of the given widget, does to the state.
\<close>

definition deactivate_widget :: "ptr \<Rightarrow> wm_state \<Rightarrow> wm_state option" where
  "deactivate_widget widget s =
     do { w \<leftarrow> deref s widget;
          let s1 = store widget (w\<lparr>flag := flag w AND NOT WM_WIDGET_ACTIVE\<rparr>) s;
          w1 \<leftarrow> deref s1 widget;
          Some (if interaction_data w1 \<noteq> NULL
                then store widget (w1\<lparr>interaction_data := NULL\<rparr>)
                       (log_call (Interaction_data_free widget) s1)
                else s1) }"

definition activate_widget :: "ptr \<Rightarrow> wm_state \<Rightarrow> wm_state option" where
  "activate_widget widget s =
     do { w \<leftarrow> deref s widget;
          Some (log_call (Widget_invoke widget)
                  (store widget (w\<lparr>flag := flag w OR WM_WIDGET_ACTIVE\<rparr>) s)) }"

text \<open>
  Lines 1180--1187: what happens before \<^verbatim>\<open>WM_operator_name_call_ptr\<close> runs. The result is
  the state in which the operator is called.
\<close>

definition activate_for_operator :: "string \<Rightarrow> ptr \<Rightarrow> wm_state \<Rightarrow> wm_state option" where
  "activate_for_operator name widget s =
     do { w \<leftarrow> deref s widget;
          s1 \<leftarrow> (if invoke w \<and> handler w then activate_widget widget s else Some s);
          let s2 = s1\<lparr>active_widget := widget\<rparr>;
          Some (log_call (WM_operator_name_call_ptr name widget) s2) }"

definition wm_widgetmap_set_active_widget ::
  "(string \<Rightarrow> bool) \<Rightarrow> (string \<Rightarrow> ptr \<Rightarrow> wm_state \<Rightarrow> wm_state) \<Rightarrow>
   bContext \<Rightarrow> ptr \<Rightarrow> wm_state \<Rightarrow> wm_state option" where
  "wm_widgetmap_set_active_widget operatortype_find operator_call C widget s =
     (if widget \<noteq> NULL then
        do { w \<leftarrow> deref s widget;
             case opname w of
               Some name \<Rightarrow>
                 if operatortype_find name then
                   do { s2 \<leftarrow> activate_for_operator name widget s;
                        let s3 = operator_call name widget s2;
                        if active_widget s3 = NULL then deactivate_widget widget s3 else Some s3 }
                 else
                   Some ((log_call (Printf ''Widget error: operator not found'') s)\<lparr>active_widget := NULL\<rparr>)
             | None \<Rightarrow>
                 if invoke w \<and> handler w then
                   do { s1 \<leftarrow> activate_widget widget s; Some (s1\<lparr>active_widget := widget\<rparr>) }
                 else Some s }
      else
        do { s1 \<leftarrow> (if active_widget s \<noteq> NULL then deactivate_widget (active_widget s) s else Some s);
             let s2 = s1\<lparr>active_widget := NULL\<rparr>;
             Some (log_call WM_event_add_mousemove (log_call (ED_region_tag_redraw (ctx_region C)) s2)) })"

subsection \<open>The picking pass over the widgets (lines 981--1097)\<close>

text \<open>
  \<^verbatim>\<open>wm_prepare_visible_widgets_3D\<close>: the widgets of the groups that pass their poll,
  not hidden and with a \<^verbatim>\<open>render_3d_intersection\<close> callback, each added at the head of
  the list (\<^verbatim>\<open>BLI_addhead\<close>).
\<close>

fun visible_widgets_of_group :: "wm_state \<Rightarrow> ptr list \<Rightarrow> ptr list \<Rightarrow> ptr list option" where
  "visible_widgets_of_group s [] visible = Some visible"
| "visible_widgets_of_group s (widget # rest) visible =
     do { w \<leftarrow> deref s widget;
          if render_3d_intersection w \<and> \<not> flag_set (flag w) WM_WIDGET_HIDDEN
          then visible_widgets_of_group s rest (widget # visible)
          else visible_widgets_of_group s rest visible }"

fun wm_prepare_visible_widgets_3D ::
  "bContext \<Rightarrow> wm_state \<Rightarrow> wmWidgetGroup list \<Rightarrow> ptr list \<Rightarrow> ptr list option" where
  "wm_prepare_visible_widgets_3D C s [] visible = Some visible"
| "wm_prepare_visible_widgets_3D C s (wg # rest) visible =
     (if poll_ok C wg then
        do { visible1 \<leftarrow> visible_widgets_of_group s (widgets wg) visible;
             wm_prepare_visible_widgets_3D C s rest visible1 }
      else wm_prepare_visible_widgets_3D C s rest visible)"

text \<open>
  Lines 996--999: the rectangle around the cursor position \<^verbatim>\<open>event->mval\<close>, reaching
  \<^verbatim>\<open>hotspot\<close> to each side. Its fields are \<^verbatim>\<open>float\<close>s; they are modelled by the real
  numbers the floats stand for.
\<close>

definition pick_rect :: "wmEvent \<Rightarrow> real \<Rightarrow> rctf" where
  "pick_rect event hotspot =
     \<lparr>xmin = real_of_int (fst (mval event)) - hotspot,
      xmax = real_of_int (fst (mval event)) + hotspot,
      ymin = real_of_int (snd (mval event)) - hotspot,
      ymax = real_of_int (snd (mval event)) + hotspot\<rparr>"

text \<open>
  \<^verbatim>\<open>wm_widget_find_highlighted_3D_intern\<close>. The GPU selection of lines 1003--1022 (one or
  two render passes over the rectangle) is external: the parameter \<open>gpu_select\<close> gives
  the hit count and the buffer as they are at line 1024, and the rectangle is recorded
  in the trace.
\<close>

definition wm_widget_find_highlighted_3D_intern ::
  "(rctf \<Rightarrow> ptr list \<Rightarrow> int \<times> GLuint list) \<Rightarrow> ptr list \<Rightarrow> wmEvent \<Rightarrow> real \<Rightarrow>
   wm_state \<Rightarrow> (int \<times> wm_state) option" where
  "wm_widget_find_highlighted_3D_intern gpu_select visible_widgets event hotspot s =
     (let rect = pick_rect event hotspot;
          (hits, buffer) = gpu_select rect visible_widgets
      in do { ret \<leftarrow> find_highlighted_3D_resolve hits buffer;
              Some (ret, log_call (GPU_select rect) s) })"

text \<open>\<^verbatim>\<open>BLI_findlink\<close> followed by \<^verbatim>\<open>link->data\<close>: no link, no widget to read.\<close>

definition BLI_findlink :: "ptr list \<Rightarrow> int \<Rightarrow> ptr option" where
  "BLI_findlink l number = (if 0 \<le> number \<and> nat number < length l then Some (l ! nat number) else None)"

text \<open>
  \<^verbatim>\<open>wm_widget_find_highlighted_3D\<close>: the result is the widget and the part written to
  \<^verbatim>\<open>*part\<close>. \<^verbatim>\<open>ret >> 8\<close> and \<^verbatim>\<open>ret & 255\<close> on the \<^verbatim>\<open>int\<close> are \<open>drop_bit 8\<close> and
  \<open>AND 255\<close> on integers (two's complement, arithmetic shift).
\<close>

definition wm_widget_find_highlighted_3D ::
  "(rctf \<Rightarrow> ptr list \<Rightarrow> int \<times> GLuint list) \<Rightarrow> bContext \<Rightarrow> wmEvent \<Rightarrow>
   wm_state \<Rightarrow> ((ptr \<times> 8 word) \<times> wm_state) option" where
  "wm_widget_find_highlighted_3D gpu_select C event s =
     do { visible_widgets \<leftarrow> wm_prepare_visible_widgets_3D C s (widgetgroups s) [];
          let hotspot = 14;
          (ret, s1) \<leftarrow> wm_widget_find_highlighted_3D_intern gpu_select visible_widgets event (0.5 * hotspot) s;
          if ret \<noteq> - 1 then
            do { (retsec, s2) \<leftarrow>
                   wm_widget_find_highlighted_3D_intern gpu_select visible_widgets event (0.2 * hotspot) s1;
                 let ret = (if retsec \<noteq> - 1 then retsec else ret);
                 result \<leftarrow> BLI_findlink visible_widgets (drop_bit 8 ret);
                 Some ((result, word_of_int (ret AND 255)), s2) }
          else Some ((NULL, 0), s1) }"

section \<open>Notions used in the statements\<close>

text \<open>
  The selection: the first \<^verbatim>\<open>tot_selected\<close> entries of the array \<^verbatim>\<open>selected_widgets\<close>
  (the array may be longer than that, the rest is unused).
\<close>

definition selection :: "wm_state \<Rightarrow> ptr list" where
  "selection s = (case selected_widgets s of None \<Rightarrow> [] | Some sel \<Rightarrow> take (nat (tot_selected s)) sel)"

text \<open>
  Following the spec's words: a widget appears in \<^verbatim>\<open>selected\<close> exactly while its
  selected flag is set, and it appears there once.
\<close>

definition selection_consistent :: "wm_state \<Rightarrow> bool" where
  "selection_consistent s \<longleftrightarrow>
     0 \<le> tot_selected s \<and> length (selection s) = nat (tot_selected s) \<and> distinct (selection s) \<and>
     (\<forall>p. p \<in> set (selection s) \<longleftrightarrow> (\<exists>w. deref s p = Some w \<and> flag_set (flag w) WM_WIDGET_SELECTED))"

text \<open>Example data: a widget, and a state around a given heap.\<close>

definition example_widget :: "string \<Rightarrow> 32 word \<Rightarrow> string option \<Rightarrow> bool \<Rightarrow> wmWidget" where
  "example_widget name f op cb =
     \<lparr>idname = name, flag = f, highlighted_part = 3, wgroup = 10, opname = op,
      invoke = cb, handler = cb, select = True, get_cursor = Some 5,
      render_3d_intersection = True, interaction_data = NULL\<rparr>"

definition example_state :: "(ptr \<Rightarrow> wmWidget option) \<Rightarrow> wm_state" where
  "example_state h =
     \<lparr>heap = h, next_addr = 5, widgetgroups = [], highlighted_widget = NULL,
      active_widget = NULL, activegroup = NULL, selected_widgets = None, tot_selected = 0,
      draw_widgets = None, trace = []\<rparr>"

definition example_context :: bContext where
  "example_context = \<lparr>ctx_window = 1, ctx_region = 2\<rparr>"

text \<open>
  Example behaviours of the external operator system: every name is (or no name is) a
  registered operator; a call that leaves the widget map alone, as an operator that
  keeps running does, and a call after which the active slot is null.
\<close>

definition every_operator :: "string \<Rightarrow> bool" where
  "every_operator name = True"

definition no_operator :: "string \<Rightarrow> bool" where
  "no_operator name = False"

definition dispatcher_idle :: "string \<Rightarrow> ptr \<Rightarrow> wm_state \<Rightarrow> wm_state" where
  "dispatcher_idle name widget s = s"

definition dispatcher_cancelled :: "string \<Rightarrow> ptr \<Rightarrow> wm_state \<Rightarrow> wm_state" where
  "dispatcher_cancelled name widget s = s\<lparr>active_widget := NULL\<rparr>"

text \<open>
  An example of a GPU selection: whatever the rectangle, one hit, with id \<open>0\<close> (the
  first widget of the list, part \<open>0\<close>). And a group without poll and factory.
\<close>

definition example_gpu_select :: "rctf \<Rightarrow> ptr list \<Rightarrow> int \<times> GLuint list" where
  "example_gpu_select rect visible_widgets = (1, [1, 0, 0, 0])"

definition example_group :: "ptr list \<Rightarrow> wmWidgetGroup" where
  "example_group ws = \<lparr>group_addr = 10, gtype = \<lparr>poll = None, create = None\<rparr>, widgets = ws\<rparr>"

text \<open>
  A group whose poll fails, and a group whose factory registers a widget \<open>x\<close> and a
  hidden widget \<open>y\<close>.
\<close>

definition never :: "bContext \<Rightarrow> bool" where
  "never C = False"

definition example_unpolled_group :: "ptr list \<Rightarrow> wmWidgetGroup" where
  "example_unpolled_group ws =
     \<lparr>group_addr = 11, gtype = \<lparr>poll = Some never, create = None\<rparr>, widgets = ws\<rparr>"

definition example_factory :: "bContext \<Rightarrow> wmWidget list" where
  "example_factory C =
     [example_widget ''x'' 0 None True, example_widget ''y'' WM_WIDGET_HIDDEN None True]"

definition example_factory_group :: "ptr list \<Rightarrow> wmWidgetGroup" where
  "example_factory_group ws =
     \<lparr>group_addr = 12, gtype = \<lparr>poll = None, create = Some example_factory\<rparr>, widgets = ws\<rparr>"

text \<open>
  A relation between a state and a later one: the same addresses are allocated, and a
  widget keeps its \<^verbatim>\<open>idname\<close> and its hidden flag.
\<close>

definition same_widgets :: "wm_state \<Rightarrow> wm_state \<Rightarrow> bool" where
  "same_widgets s s' \<longleftrightarrow>
     (\<forall>p. case heap s p of
             None \<Rightarrow> heap s' p = None
           | Some w \<Rightarrow> (\<exists>w'. heap s' p = Some w' \<and> idname w' = idname w \<and>
                flag_set (flag w') WM_WIDGET_HIDDEN = flag_set (flag w) WM_WIDGET_HIDDEN))"

text \<open>
  A second relation between a state and a later one: the highlighted slot is the same,
  no memory was released in between, the same addresses are allocated, and a widget
  keeps its highlight flag and its \<^verbatim>\<open>highlighted_part\<close>.
\<close>

definition same_highlight :: "wm_state \<Rightarrow> wm_state \<Rightarrow> bool" where
  "same_highlight s s' \<longleftrightarrow>
     highlighted_widget s' = highlighted_widget s \<and>
     (\<exists>t. trace s' = trace s @ t \<and> (\<forall>p. MEM_freeN p \<notin> set t)) \<and>
     (\<forall>p. case heap s p of
             None \<Rightarrow> heap s' p = None
           | Some w \<Rightarrow> (\<exists>w'. heap s' p = Some w' \<and> highlighted_part w' = highlighted_part w \<and>
                flag_set (flag w') WM_WIDGET_HIGHLIGHT = flag_set (flag w) WM_WIDGET_HIGHLIGHT))"

section \<open>Proofs: the nearest hit\<close>

declare find_min_hit.simps [simp del]

lemma first_min_depth_mem: "first_min_depth best rs \<in> set (best # rs)"
  by (induction rs arbitrary: best) auto

lemma first_min_depth_le: "r \<in> set (best # rs) \<Longrightarrow> fst (first_min_depth best rs) \<le> fst r"
proof (induction rs arbitrary: best r)
  case Nil
  then show ?case by simp
next
  case (Cons x xs)
  have a: "fst (first_min_depth (if fst x < fst best then x else best) xs) \<le> fst (if fst x < fst best then x else best)"
    using Cons.IH[of "if fst x < fst best then x else best" "if fst x < fst best then x else best"] by simp
  show ?case
  proof (cases "r \<in> set xs")
    case True
    then show ?thesis using Cons.IH[of r "if fst x < fst best then x else best"] by simp
  next
    case False
    then have "r = best \<or> r = x" using Cons.prems by auto
    then show ?thesis using a by (auto split: if_splits)
  qed
qed

lemma hit_records_length: "length (hit_records hits buffer) = hits"
  by (simp add: hit_records_def)

lemma hit_records_nth: "a < hits \<Longrightarrow> hit_records hits buffer ! a = (buffer ! (4 * a + 1), buffer ! (4 * a + 3))"
  by (simp add: hit_records_def)

lemma find_min_hit_scan:
  assumes "4 * hits \<le> length buffer"
    and "\<forall>r \<in> set (hit_records hits buffer). snd r \<noteq> - 1"
    and "minval \<noteq> - 1" and "a \<le> hits"
  shows "find_min_hit buffer (int hits) (int a) mindep minval =
         Some (snd (first_min_depth (mindep, minval) (drop a (hit_records hits buffer))))"
  using assms
proof (induction "hits - a" arbitrary: a mindep minval)
  case 0
  then show ?case by (subst find_min_hit.simps) (simp add: hit_records_length)
next
  case (Suc n)
  then have lt: "a < hits" by simp
  have d: "drop a (hit_records hits buffer) = (buffer ! (4 * a + 1), buffer ! (4 * a + 3)) # drop (Suc a) (hit_records hits buffer)"
    using lt by (metis Cons_nth_drop_Suc hit_records_length hit_records_nth)
  have ne: "buffer ! (4 * a + 3) \<noteq> - 1"
    using Suc.prems(2) lt hit_records_nth[OF lt, of buffer] hit_records_length[of hits buffer]
    by (metis nth_mem snd_conv)
  have n: "n = hits - Suc a" using Suc.hyps(2) by simp
  have b1: "buffer_at buffer (4 * a + 1) = Some (buffer ! (4 * a + 1))"
    and b3: "buffer_at buffer (4 * a + 3) = Some (buffer ! (4 * a + 3))"
    using lt Suc.prems(1) by (simp_all add: buffer_at_def)
  have s1: "find_min_hit buffer (int hits) (int (Suc a)) (buffer ! (4 * a + 1)) (buffer ! (4 * a + 3)) =
     Some (snd (first_min_depth (buffer ! (4 * a + 1), buffer ! (4 * a + 3)) (drop (Suc a) (hit_records hits buffer))))"
    using Suc.hyps(1)[OF n Suc.prems(1) Suc.prems(2) ne] lt by simp
  have s2: "find_min_hit buffer (int hits) (int (Suc a)) mindep minval =
     Some (snd (first_min_depth (mindep, minval) (drop (Suc a) (hit_records hits buffer))))"
    using Suc.hyps(1)[OF n Suc.prems(1) Suc.prems(2) Suc.prems(3)] lt by simp
  have i: "int a + 1 = int (Suc a)" by simp
  have "find_min_hit buffer (int hits) (int a) mindep minval =
     (if buffer ! (4 * a + 1) < mindep
      then find_min_hit buffer (int hits) (int (Suc a)) (buffer ! (4 * a + 1)) (buffer ! (4 * a + 3))
      else find_min_hit buffer (int hits) (int (Suc a)) mindep minval)"
    apply (subst find_min_hit.simps)
    using lt Suc.prems(3) b1 b3
    by (simp add: i del: find_min_hit.simps)
  then show ?case
    using s1 s2 by (simp add: d del: find_min_hit.simps)
qed


lemma first_min_depth_first:
  "(first_min_depth best rs = best \<and> (\<forall>r \<in> set rs. fst best \<le> fst r)) \<or>
   (\<exists>i < length rs. first_min_depth best rs = rs ! i \<and> fst (rs ! i) < fst best \<and>
      (\<forall>j < i. fst (rs ! i) < fst (rs ! j)) \<and> (\<forall>j < length rs. fst (rs ! i) \<le> fst (rs ! j)))"
proof (induction rs arbitrary: best)
  case Nil
  then show ?case by simp
next
  case (Cons r rs)
  let ?b = "if fst r < fst best then r else best"
  let ?m = "first_min_depth ?b rs"
  have bb: "fst ?b \<le> fst best" "fst ?b \<le> fst r" by auto
  from Cons.IH[of ?b] consider
    (keep) "?m = ?b" "\<forall>x \<in> set rs. fst ?b \<le> fst x"
    | (later) i where "i < length rs" "?m = rs ! i" "fst (rs ! i) < fst ?b"
        "\<forall>j < i. fst (rs ! i) < fst (rs ! j)" "\<forall>j < length rs. fst (rs ! i) \<le> fst (rs ! j)"
    by blast
  then show ?case
  proof cases
    case keep
    show ?thesis
    proof (cases "fst r < fst best")
      case True
      have "\<forall>j < length (r # rs). fst r \<le> fst ((r # rs) ! j)"
        using keep(2) True by (auto simp: nth_Cons split: nat.splits)
      then have "0 < length (r # rs) \<and> first_min_depth best (r # rs) = (r # rs) ! 0 \<and>
          fst ((r # rs) ! 0) < fst best \<and> (\<forall>j < 0. fst ((r # rs) ! 0) < fst ((r # rs) ! j)) \<and>
          (\<forall>j < length (r # rs). fst ((r # rs) ! 0) \<le> fst ((r # rs) ! j))"
        using keep(1) True by simp
      then show ?thesis by blast
    next
      case False
      then show ?thesis using keep by auto
    qed
  next
    case later
    have lt: "fst (rs ! i) < fst best" "fst (rs ! i) < fst r"
      using later(3) bb by (auto split: if_splits)
    have a: "\<forall>j < Suc i. fst ((r # rs) ! Suc i) < fst ((r # rs) ! j)"
      using later(4) lt(2) by (auto simp: nth_Cons split: nat.splits)
    have b: "\<forall>j < length (r # rs). fst ((r # rs) ! Suc i) \<le> fst ((r # rs) ! j)"
      using later(5) lt(2) by (auto simp: nth_Cons split: nat.splits)
    have "Suc i < length (r # rs) \<and> first_min_depth best (r # rs) = (r # rs) ! Suc i \<and>
          fst ((r # rs) ! Suc i) < fst best" using later(1,2) lt(1) by simp
    then show ?thesis using a b by blast
  qed
qed

lemma nearest_id_first:
  assumes "recs \<noteq> []"
  shows "\<exists>i < length recs. nearest_id recs = snd (recs ! i) \<and>
           (\<forall>j < length recs. fst (recs ! i) \<le> fst (recs ! j)) \<and>
           (\<forall>j < i. fst (recs ! i) < fst (recs ! j))"
proof -
  obtain b rs where recs: "recs = b # rs" using assms by (cases recs) auto
  from first_min_depth_first[of b rs] consider
    (keep) "first_min_depth b rs = b" "\<forall>r \<in> set rs. fst b \<le> fst r"
    | (later) i where "i < length rs" "first_min_depth b rs = rs ! i" "fst (rs ! i) < fst b"
        "\<forall>j < i. fst (rs ! i) < fst (rs ! j)" "\<forall>j < length rs. fst (rs ! i) \<le> fst (rs ! j)"
    by blast
  then show ?thesis
  proof cases
    case keep
    have "\<forall>j < length recs. fst (recs ! 0) \<le> fst (recs ! j)"
      using keep(2) recs by (auto simp: nth_Cons split: nat.splits)
    moreover have "nearest_id recs = snd (recs ! 0)" using keep(1) recs by (simp add: nearest_id_def)
    ultimately have "0 < length recs \<and> nearest_id recs = snd (recs ! 0) \<and>
           (\<forall>j < length recs. fst (recs ! 0) \<le> fst (recs ! j)) \<and>
           (\<forall>j < 0. fst (recs ! 0) < fst (recs ! j))" using recs by simp
    then show ?thesis by blast
  next
    case later
    have a: "\<forall>j < Suc i. fst (recs ! Suc i) < fst (recs ! j)"
      using later(3,4) recs by (auto simp: nth_Cons split: nat.splits)
    have b: "\<forall>j < length recs. fst (recs ! Suc i) \<le> fst (recs ! j)"
      using later(3,5) recs by (auto simp: nth_Cons split: nat.splits)
    have "Suc i < length recs \<and> nearest_id recs = snd (recs ! Suc i)"
      using later(1,2) recs by (simp add: nearest_id_def)
    then show ?thesis using a b by blast
  qed
qed

lemma nearest_id_reorder:
  assumes "recs \<noteq> []" and "mset recs' = mset recs" and "distinct (map fst recs)"
  shows "nearest_id recs' = nearest_id recs"
proof -
  have ne': "recs' \<noteq> []" using assms(1,2) by auto
  have sets: "set recs' = set recs" using assms(2) by (rule mset_eq_setD)
  let ?m = "first_min_depth (hd recs) (tl recs)"
  let ?m' = "first_min_depth (hd recs') (tl recs')"
  have m: "?m \<in> set recs" using first_min_depth_mem[of "hd recs" "tl recs"] assms(1) by simp
  have m': "?m' \<in> set recs" using first_min_depth_mem[of "hd recs'" "tl recs'"] ne' sets by simp
  have "fst ?m \<le> fst ?m'"
    using first_min_depth_le[of ?m' "hd recs" "tl recs"] m' assms(1) by simp
  moreover have "fst ?m' \<le> fst ?m"
    using first_min_depth_le[of ?m "hd recs'" "tl recs'"] m ne' sets by simp
  ultimately have "fst ?m = fst ?m'" by simp
  moreover have "inj_on fst (set recs)" using assms(3) by (simp add: distinct_map)
  ultimately have "?m = ?m'" using m m' by (auto dest: inj_onD)
  then show ?thesis by (simp add: nearest_id_def)
qed

lemma resolve_nearest:
  assumes "2 \<le> hits" and "4 * hits \<le> length buffer"
    and "\<forall>r \<in> set (hit_records hits buffer). snd r \<noteq> - 1"
  shows "find_highlighted_3D_resolve (int hits) buffer = Some (sint (nearest_id (hit_records hits buffer)))"
proof -
  let ?recs = "hit_records hits buffer"
  have len: "length ?recs = hits" by (rule hit_records_length)
  have r0: "?recs ! 0 = (buffer ! 1, buffer ! 3)" using hit_records_nth[of 0 hits buffer] assms(1) by simp
  have ne: "buffer ! 3 \<noteq> - 1"
    using assms(1,3) r0 len by (metis nth_mem snd_conv less_le_trans zero_less_numeral)
  have "?recs \<noteq> []" using len assms(1) by auto
  then have hd: "hd ?recs = (buffer ! 1, buffer ! 3)" using r0 by (simp add: hd_conv_nth)
  have tl: "tl ?recs = drop 1 ?recs" by (simp add: drop_Suc)
  have b: "buffer_at buffer 1 = Some (buffer ! 1)" "buffer_at buffer 3 = Some (buffer ! 3)"
    using assms(1,2) by (simp_all add: buffer_at_def)
  have "find_min_hit buffer (int hits) 0 0 (- 1) = find_min_hit buffer (int hits) (int 1) (buffer ! 1) (buffer ! 3)"
    apply (subst find_min_hit.simps)
    using assms(1) b by (simp del: find_min_hit.simps)
  also have "\<dots> = Some (snd (first_min_depth (buffer ! 1, buffer ! 3) (drop 1 ?recs)))"
    using find_min_hit_scan[OF assms(2,3) ne, of 1 "buffer ! 1"] assms(1) by simp
  finally show ?thesis
    using assms(1) by (simp add: find_highlighted_3D_resolve_def nearest_id_def hd tl)
qed

text \<open>
  The claim as stated fails when a hit carries the id \<open>0xFFFFFFFF\<close>: the scan uses that
  value for ``nothing chosen yet'', so such a record is given up for the next one,
  whatever the depths. Here the nearer record (depth 1) has that id and the id of the
  farther one (depth 5) is returned.
\<close>

theorem pick_3D_sentinel_counterexample:
  "find_highlighted_3D_resolve 2 [1, 1, 1, - 1, 1, 5, 5, 7] = Some 7 \<and>
   nearest_id (hit_records 2 [1, 1, 1, - 1, 1, 5, 5, 7]) = - 1"
  by code_simp

text \<open>
  C1 (amended). For a buffer of at least two hits none of which carries the id
  \<open>0xFFFFFFFF\<close>, the resolution returns the id of a record of minimum depth, namely
  the first such record in scan order (every earlier record is strictly farther). When
  no two records share a depth, the result is the same for every reordering of the
  records.
\<close>

theorem pick_3D_minimum_depth:
  assumes "2 \<le> hits" and "4 * hits \<le> length buffer"
    and "\<forall>a < hits. buffer ! (4 * a + 3) \<noteq> - 1"
  shows "(\<exists>i < hits. find_highlighted_3D_resolve (int hits) buffer = Some (sint (buffer ! (4 * i + 3))) \<and>
            (\<forall>j < hits. buffer ! (4 * i + 1) \<le> buffer ! (4 * j + 1)) \<and>
            (\<forall>j < i. buffer ! (4 * i + 1) < buffer ! (4 * j + 1))) \<and>
         (\<forall>buffer'. 4 * hits \<le> length buffer' \<and>
            mset (hit_records hits buffer') = mset (hit_records hits buffer) \<and>
            distinct (map fst (hit_records hits buffer)) \<longrightarrow>
            find_highlighted_3D_resolve (int hits) buffer' = find_highlighted_3D_resolve (int hits) buffer)"
proof -
  let ?recs = "hit_records hits buffer"
  have len: "length ?recs = hits" by (rule hit_records_length)
  have ids: "\<forall>r \<in> set ?recs. snd r \<noteq> - 1"
    using assms(3) by (auto simp: hit_records_def)
  have ne: "?recs \<noteq> []" using len assms(1) by auto
  have res: "find_highlighted_3D_resolve (int hits) buffer = Some (sint (nearest_id ?recs))"
    using resolve_nearest[OF assms(1,2) ids] .
  obtain i where i: "i < hits" "nearest_id ?recs = snd (?recs ! i)"
      "\<forall>j < hits. fst (?recs ! i) \<le> fst (?recs ! j)" "\<forall>j < i. fst (?recs ! i) < fst (?recs ! j)"
    using nearest_id_first[OF ne] len by auto
  have first: "\<exists>i < hits. find_highlighted_3D_resolve (int hits) buffer = Some (sint (buffer ! (4 * i + 3))) \<and>
            (\<forall>j < hits. buffer ! (4 * i + 1) \<le> buffer ! (4 * j + 1)) \<and>
            (\<forall>j < i. buffer ! (4 * i + 1) < buffer ! (4 * j + 1))"
    using i res by (intro exI[of _ i]) (auto simp: hit_records_nth)
  have perm: "find_highlighted_3D_resolve (int hits) buffer' = find_highlighted_3D_resolve (int hits) buffer"
    if h: "4 * hits \<le> length buffer'" "mset (hit_records hits buffer') = mset ?recs" "distinct (map fst ?recs)"
    for buffer'
  proof -
    have "set (hit_records hits buffer') = set ?recs" using h(2) by (rule mset_eq_setD)
    then have ids': "\<forall>r \<in> set (hit_records hits buffer'). snd r \<noteq> - 1" using ids by simp
    show ?thesis
      using resolve_nearest[OF assms(1) h(1) ids'] res nearest_id_reorder[OF ne h(2,3)] by simp
  qed
  show ?thesis using first perm by blast
qed

theorem pick_3D_minimum_depth_witness:
  "find_highlighted_3D_resolve 2 [1, 5, 5, 256, 1, 3, 3, 513] = Some 513 \<and>
   find_highlighted_3D_resolve 2 [1, 3, 3, 513, 1, 5, 5, 256] =
   find_highlighted_3D_resolve 2 [1, 5, 5, 256, 1, 3, 3, 513]"
proof -
  let ?b = "[1, 5, 5, 256, 1, 3, 3, 513] :: GLuint list"
  let ?b' = "[1, 3, 3, 513, 1, 5, 5, 256] :: GLuint list"
  have h1: "2 \<le> (2 :: nat)" by simp
  have h2: "4 * 2 \<le> length ?b" by simp
  have h3: "\<forall>a < 2. ?b ! (4 * a + 3) \<noteq> - 1" by (simp add: less_2_cases_iff)
  have recs: "hit_records 2 ?b = [(5, 256), (3, 513)]" "hit_records 2 ?b' = [(3, 513), (5, 256)]"
    by code_simp+
  note t = pick_3D_minimum_depth [OF h1 h2 h3]
  from t obtain i where i: "i < 2" "find_highlighted_3D_resolve (int 2) ?b = Some (sint (?b ! (4 * i + 3)))"
    "\<forall>j < 2. ?b ! (4 * i + 1) \<le> ?b ! (4 * j + 1)" by blast
  have "i = 1" using i(1,3) by (auto simp: less_2_cases_iff)
  then have a: "find_highlighted_3D_resolve 2 ?b = Some 513" using i(2) by simp
  have m: "mset (hit_records 2 ?b') = mset (hit_records 2 ?b)"
    unfolding recs by (simp add: add_mset_commute)
  have d: "distinct (map fst (hit_records 2 ?b))" unfolding recs by simp
  have l: "4 * 2 \<le> length ?b'" by simp
  have "find_highlighted_3D_resolve (int 2) ?b' = find_highlighted_3D_resolve (int 2) ?b"
    using t l m d by blast
  then show ?thesis using a by simp
qed

section \<open>Proofs: flags, memory and frame lemmas\<close>

lemma flag_set_or_same: "b \<noteq> 0 \<Longrightarrow> flag_set (f OR b) b"
  by (simp add: flag_set_def)

lemma flag_set_andnot_same: "\<not> flag_set (f AND NOT b) b"
  by (simp add: flag_set_def bit_eq_iff bit_simps)

lemma flag_set_or_other: "b AND c = 0 \<Longrightarrow> flag_set (f OR b) c = flag_set f c"
  by (simp add: flag_set_def bit.conj_disj_distrib2)

lemma flag_set_andnot_other: "b AND c = 0 \<Longrightarrow> flag_set (f AND NOT b) c = flag_set f c"
proof -
  assume a: "b AND c = 0"
  have "(f AND NOT b) AND c = f AND c"
  proof (rule bit_eqI)
    fix n
    have "\<not> (bit b n \<and> bit c n)" using a by (metis bit_and_iff bit_0_eq bot_apply bot_bool_def)
    then show "bit ((f AND NOT b) AND c) n = bit (f AND c) n"
      by (auto simp: bit_simps dest: bit_imp_le_length)
  qed
  then show ?thesis by (simp add: flag_set_def)
qed

lemma flags_disjoint [simp]:
  "WM_WIDGET_HIGHLIGHT AND WM_WIDGET_SELECTED = 0"
  "WM_WIDGET_HIGHLIGHT AND WM_WIDGET_ACTIVE = 0"
  "WM_WIDGET_HIGHLIGHT AND WM_WIDGET_HIDDEN = 0"
  "WM_WIDGET_SELECTED AND WM_WIDGET_HIGHLIGHT = 0"
  "WM_WIDGET_SELECTED AND WM_WIDGET_ACTIVE = 0"
  "WM_WIDGET_SELECTED AND WM_WIDGET_HIDDEN = 0"
  "WM_WIDGET_ACTIVE AND WM_WIDGET_HIGHLIGHT = 0"
  "WM_WIDGET_ACTIVE AND WM_WIDGET_SELECTED = 0"
  "WM_WIDGET_ACTIVE AND WM_WIDGET_HIDDEN = 0"
  "WM_WIDGET_HIGHLIGHT \<noteq> 0" "WM_WIDGET_SELECTED \<noteq> 0" "WM_WIDGET_ACTIVE \<noteq> 0" "WM_WIDGET_HIDDEN \<noteq> 0"
  by (simp_all add: WM_WIDGET_HIGHLIGHT_def WM_WIDGET_SELECTED_def WM_WIDGET_ACTIVE_def WM_WIDGET_HIDDEN_def)

lemma deref_store: "p \<noteq> NULL \<Longrightarrow> deref (store p w s) q = (if q = p then Some w else deref s q)"
  by (simp add: deref_def store_def)

lemma deref_log_call [simp]: "deref (log_call c s) q = deref s q"
  by (simp add: deref_def log_call_def)

lemma deref_NULL [simp]: "deref s NULL = None"
  by (simp add: deref_def)

lemma deref_Some_not_NULL: "deref s p = Some w \<Longrightarrow> p \<noteq> NULL"
  by (auto simp: deref_def split: if_splits)

lemma store_fields [simp]:
  "selected_widgets (store p w s) = selected_widgets s"
  "tot_selected (store p w s) = tot_selected s"
  "highlighted_widget (store p w s) = highlighted_widget s"
  "active_widget (store p w s) = active_widget s"
  "draw_widgets (store p w s) = draw_widgets s"
  "widgetgroups (store p w s) = widgetgroups s"
  "next_addr (store p w s) = next_addr s"
  "trace (store p w s) = trace s"
  "activegroup (store p w s) = activegroup s"
  by (simp_all add: store_def)

lemma log_call_fields [simp]:
  "selected_widgets (log_call c s) = selected_widgets s"
  "tot_selected (log_call c s) = tot_selected s"
  "highlighted_widget (log_call c s) = highlighted_widget s"
  "active_widget (log_call c s) = active_widget s"
  "draw_widgets (log_call c s) = draw_widgets s"
  "widgetgroups (log_call c s) = widgetgroups s"
  "next_addr (log_call c s) = next_addr s"
  "heap (log_call c s) = heap s"
  "activegroup (log_call c s) = activegroup s"
  "trace (log_call c s) = trace s @ [c]"
  by (simp_all add: log_call_def)

lemma deref_upd [simp]:
  "deref (s\<lparr>selected_widgets := a\<rparr>) p = deref s p"
  "deref (s\<lparr>tot_selected := b\<rparr>) p = deref s p"
  "deref (s\<lparr>highlighted_widget := c\<rparr>) p = deref s p"
  "deref (s\<lparr>active_widget := d\<rparr>) p = deref s p"
  "deref (s\<lparr>activegroup := e\<rparr>) p = deref s p"
  "deref (s\<lparr>draw_widgets := f\<rparr>) p = deref s p"
  "deref (s\<lparr>widgetgroups := g\<rparr>) p = deref s p"
  "deref (s\<lparr>trace := h\<rparr>) p = deref s p"
  "deref (s\<lparr>next_addr := i\<rparr>) p = deref s p"
  by (simp_all add: deref_def)

text \<open>What setting the highlight leaves alone.\<close>

lemma set_highlighted_frame:
  assumes "wm_widgetmap_set_highlighted_widget C widget part s = Some s'"
  shows "selected_widgets s' = selected_widgets s \<and> tot_selected s' = tot_selected s \<and>
         active_widget s' = active_widget s \<and>
         (\<forall>p. case deref s p of
                 None \<Rightarrow> deref s' p = None
               | Some w \<Rightarrow> (\<exists>w'. deref s' p = Some w' \<and> idname w' = idname w \<and>
                              flag_set (flag w') WM_WIDGET_SELECTED = flag_set (flag w) WM_WIDGET_SELECTED))"
  using assms
  unfolding wm_widgetmap_set_highlighted_widget_def
  by (auto simp: deref_store deref_Some_not_NULL flag_set_or_other flag_set_andnot_other Let_def
           split: if_splits option.splits Option.bind_splits)

lemma set_highlighted_Some:
  assumes "highlighted_widget s = NULL \<or> deref s (highlighted_widget s) \<noteq> None"
    and "widget = NULL \<or> deref s widget \<noteq> None"
  shows "\<exists>s'. wm_widgetmap_set_highlighted_widget C widget part s = Some s'"
  using assms
  unfolding wm_widgetmap_set_highlighted_widget_def
  by (auto simp: deref_store deref_Some_not_NULL Let_def
           split: if_splits option.splits Option.bind_splits)

lemma example_state_fields [simp]:
  "heap (example_state h) = h"
  "next_addr (example_state h) = 5"
  "widgetgroups (example_state h) = []"
  "highlighted_widget (example_state h) = NULL"
  "active_widget (example_state h) = NULL"
  "activegroup (example_state h) = NULL"
  "selected_widgets (example_state h) = None"
  "tot_selected (example_state h) = 0"
  "draw_widgets (example_state h) = None"
  "trace (example_state h) = []"
  by (simp_all add: example_state_def)

lemma example_widget_fields [simp]:
  "idname (example_widget name f op cb) = name"
  "flag (example_widget name f op cb) = f"
  "highlighted_part (example_widget name f op cb) = 3"
  "opname (example_widget name f op cb) = op"
  "invoke (example_widget name f op cb) = cb"
  "handler (example_widget name f op cb) = cb"
  "interaction_data (example_widget name f op cb) = NULL"
  by (simp_all add: example_widget_def)

section \<open>Proofs: highlight\<close>

text \<open>
  C9. Setting the highlight to the widget that is highlighted already (or to null when
  nothing is highlighted), with the sub-part code the widget has, returns the state as
  it was: flags, highlighted slot, sub-part code, active group and the trace of external
  calls (cursor, redraw tag) are all unchanged.
\<close>

theorem set_highlighted_same_is_noop:
  assumes "widget = highlighted_widget s"
    and "widget = NULL \<or> (\<exists>w. deref s widget = Some w \<and> part = highlighted_part w)"
  shows "wm_widgetmap_set_highlighted_widget C widget part s = Some s"
  using assms by (auto simp: wm_widgetmap_set_highlighted_widget_def)

theorem set_highlighted_same_is_noop_witness:
  "wm_widgetmap_set_highlighted_widget (Some example_context) 1 3
     ((example_state (Map.empty(1 \<mapsto> example_widget ''arrow'' WM_WIDGET_HIGHLIGHT None True)))
        \<lparr>highlighted_widget := 1\<rparr>)
   = Some ((example_state (Map.empty(1 \<mapsto> example_widget ''arrow'' WM_WIDGET_HIGHLIGHT None True)))
        \<lparr>highlighted_widget := 1\<rparr>)"
  by (rule set_highlighted_same_is_noop) (simp_all add: deref_def)

section \<open>Proofs: selection\<close>

declare shift_selected.simps [simp del] remove_selected.simps [simp del]

lemma selection_length:
  "length (selection s) = nat (tot_selected s) \<Longrightarrow> 0 < tot_selected s \<Longrightarrow>
   \<exists>sel. selected_widgets s = Some sel \<and> nat (tot_selected s) \<le> length sel"
  by (auto simp: selection_def split: option.splits)

lemma realloc_length [simp]: "length (MEM_reallocN sel n) = n"
  by (cases sel) (auto simp: MEM_reallocN_def)

lemma realloc_append:
  assumes "length (selection s) = nat (tot_selected s)" and "0 \<le> tot_selected s"
  shows "(MEM_reallocN (selected_widgets s) (nat (tot_selected s + 1)))[nat (tot_selected s) := widget]
         = selection s @ [widget]"
proof (cases "selected_widgets s")
  case None
  then have "tot_selected s = 0" using assms by (simp add: selection_def)
  then show ?thesis using None by (simp add: MEM_reallocN_def selection_def)
next
  case (Some xs)
  let ?n = "nat (tot_selected s)"
  have le: "?n \<le> length xs" using assms Some by (simp add: selection_def)
  have n1: "nat (tot_selected s + 1) = Suc ?n" using assms(2) by simp
  have "(take (Suc ?n) xs @ replicate (Suc ?n - length xs) NULL)[?n := widget] = take ?n xs @ [widget]"
  proof (cases "?n = length xs")
    case True
    then show ?thesis by (simp add: list_update_append)
  next
    case False
    then have lt: "?n < length xs" using le by simp
    then have "take (Suc ?n) xs = take ?n xs @ [xs ! ?n]" by (simp add: take_Suc_conv_app_nth)
    then show ?thesis using lt by (simp add: list_update_append)
  qed
  then show ?thesis using Some n1 by (simp add: MEM_reallocN_def selection_def)
qed

lemma select_result:
  assumes w: "deref s widget = Some w" and ns: "\<not> flag_set (flag w) WM_WIDGET_SELECTED"
    and tot: "0 \<le> tot_selected s" and len: "length (selection s) = nat (tot_selected s)"
    and r: "wm_widget_select C widget s = Some s'"
  shows "tot_selected s' = tot_selected s + 1 \<and> selected_widgets s' = Some (selection s @ [widget]) \<and>
         (\<forall>p. case deref s p of
                 None \<Rightarrow> deref s' p = None
               | Some v \<Rightarrow> (\<exists>v'. deref s' p = Some v' \<and> idname v' = idname v \<and>
                     (flag_set (flag v') WM_WIDGET_SELECTED \<longleftrightarrow> p = widget \<or> flag_set (flag v) WM_WIDGET_SELECTED)))"
proof -
  have nn: "widget \<noteq> NULL" using w by (rule deref_Some_not_NULL)
  let ?sel1 = "selection s @ [widget]"
  let ?s1 = "s\<lparr>tot_selected := tot_selected s + 1, selected_widgets := Some ?sel1\<rparr>"
  let ?s2 = "store widget (w\<lparr>flag := flag w OR WM_WIDGET_SELECTED\<rparr>) ?s1"
  let ?s3 = "if select w then log_call (Widget_select widget SEL_SELECT) ?s2 else ?s2"
  have bound: "nat (tot_selected s + 1 - 1) < length (MEM_reallocN (selected_widgets s) (nat (tot_selected s + 1)))"
    using tot by simp
  have d3: "deref ?s3 widget = Some (w\<lparr>flag := flag w OR WM_WIDGET_SELECTED\<rparr>)"
    using nn by (simp add: deref_store)
  obtain s4 where s4: "wm_widgetmap_set_highlighted_widget (Some C) widget (highlighted_part w) ?s3 = Some s4"
    and s': "s' = log_call (ED_region_tag_redraw (ctx_region C)) s4"
    using r w ns nn tot bound d3 realloc_append[OF len tot, of widget]
    by (auto simp: wm_widget_select_def Let_def split: if_splits Option.bind_splits)
  note f = set_highlighted_frame[OF s4]
  have a: "tot_selected s' = tot_selected s + 1" using f s' by (simp split: if_splits)
  have b: "selected_widgets s' = Some ?sel1" using f s' by (simp split: if_splits)
  have c: "case deref s p of
                 None \<Rightarrow> deref s' p = None
               | Some v \<Rightarrow> (\<exists>v'. deref s' p = Some v' \<and> idname v' = idname v \<and>
                     (flag_set (flag v') WM_WIDGET_SELECTED \<longleftrightarrow> p = widget \<or> flag_set (flag v) WM_WIDGET_SELECTED))" for p
  proof -
    have d: "deref ?s3 p = (if p = widget then Some (w\<lparr>flag := flag w OR WM_WIDGET_SELECTED\<rparr>) else deref s p)"
      using nn by (simp add: deref_store)
    from f have fp: "case deref ?s3 p of
                 None \<Rightarrow> deref s4 p = None
               | Some w \<Rightarrow> (\<exists>w'. deref s4 p = Some w' \<and> idname w' = idname w \<and>
                              flag_set (flag w') WM_WIDGET_SELECTED = flag_set (flag w) WM_WIDGET_SELECTED)"
      by blast
    show ?thesis
    proof (cases "p = widget")
      case True
      then show ?thesis using fp d w s' by (auto simp: flag_set_or_same)
    next
      case False
      then show ?thesis using fp d s' by (auto split: option.splits)
    qed
  qed
  show ?thesis using a b c by blast
qed

lemma select_Some:
  assumes w: "deref s widget = Some w" and ns: "\<not> flag_set (flag w) WM_WIDGET_SELECTED"
    and tot: "0 \<le> tot_selected s"
    and hl: "highlighted_widget s = NULL \<or> deref s (highlighted_widget s) \<noteq> None"
  shows "\<exists>s'. wm_widget_select C widget s = Some s'"
proof -
  have nn: "widget \<noteq> NULL" using w by (rule deref_Some_not_NULL)
  let ?sel = "MEM_reallocN (selected_widgets s) (nat (tot_selected s + 1))"
  let ?s1 = "s\<lparr>tot_selected := tot_selected s + 1, selected_widgets := Some (?sel[nat (tot_selected s + 1 - 1) := widget])\<rparr>"
  let ?s2 = "store widget (w\<lparr>flag := flag w OR WM_WIDGET_SELECTED\<rparr>) ?s1"
  let ?s3 = "if select w then log_call (Widget_select widget SEL_SELECT) ?s2 else ?s2"
  have bound: "nat (tot_selected s + 1 - 1) < length ?sel"
    using tot by simp
  have d3: "deref ?s3 widget = Some (w\<lparr>flag := flag w OR WM_WIDGET_SELECTED\<rparr>)"
    using nn by (simp add: deref_store)
  have h3: "highlighted_widget ?s3 = NULL \<or> deref ?s3 (highlighted_widget ?s3) \<noteq> None"
    using hl nn by (auto simp: deref_store)
  have "widget = NULL \<or> deref ?s3 widget \<noteq> None" using d3 by simp
  from set_highlighted_Some[OF h3 this, of "Some C" "highlighted_part w"]
  obtain s4 where "wm_widgetmap_set_highlighted_widget (Some C) widget (highlighted_part w) ?s3 = Some s4"
    by blast
  then show ?thesis
    using w ns nn tot bound d3
    by (auto simp: wm_widget_select_def Let_def split: if_splits)
qed

lemma selection_after_select:
  assumes "length (selection s) = nat (tot_selected s)" and "0 \<le> tot_selected s"
    and "tot_selected s' = tot_selected s + 1" and "selected_widgets s' = Some (selection s @ [widget])"
  shows "selection s' = selection s @ [widget]"
  using assms by (simp add: selection_def[of s'] nat_add_distrib)

lemma remove_selected_last:
  assumes "deref s1 widget = Some w1"
    and "\<forall>p \<in> set xs. \<exists>v. deref s1 p = Some v \<and> idname v \<noteq> idname w1"
    and "i \<le> length xs"
  shows "remove_selected s1 widget (int i) (int (length xs) + 1) (xs @ [widget]) = Some (xs @ [widget])"
  using assms(3)
proof (induction "length xs - i" arbitrary: i)
  case 0
  then have i: "i = length xs" by simp
  have "shift_selected (int (length xs)) (int (length xs) + 1) (xs @ [widget]) = Some (xs @ [widget])"
    by (subst shift_selected.simps) simp
  then show ?case
    using i assms(1) by (subst remove_selected.simps) (simp add: widget_compare_def)
next
  case (Suc n)
  then have lt: "i < length xs" by simp
  then have "xs ! i \<in> set xs" by simp
  then obtain v where v: "deref s1 (xs ! i) = Some v" "idname v \<noteq> idname w1" using assms(2) by blast
  have "remove_selected s1 widget (int i + 1) (int (length xs) + 1) (xs @ [widget]) = Some (xs @ [widget])"
    using Suc.hyps(1)[of "Suc i"] Suc.hyps(2) lt by (simp add: add.commute)
  then show ?case
    using lt v assms(1)
    by (subst remove_selected.simps) (simp add: widget_compare_def nth_append)
qed

text \<open>
  C10. Selecting a null widget, or a widget whose selected flag is set, returns the state
  as it was (array, count, flags and trace of callbacks unchanged). And selecting
  preserves the consistency of the selection: no widget twice in the array, and a widget
  in the array exactly when its selected flag is set.
\<close>

theorem select_keeps_selection_consistent:
  "((widget = NULL \<or> (\<exists>w. deref s widget = Some w \<and> flag_set (flag w) WM_WIDGET_SELECTED)) \<longrightarrow>
      wm_widget_select C widget s = Some s) \<and>
   (selection_consistent s \<and> wm_widget_select C widget s = Some s' \<longrightarrow> selection_consistent s')"
proof (intro conjI impI)
  assume "widget = NULL \<or> (\<exists>w. deref s widget = Some w \<and> flag_set (flag w) WM_WIDGET_SELECTED)"
  then show "wm_widget_select C widget s = Some s"
    by (auto simp: wm_widget_select_def)
next
  assume a: "selection_consistent s \<and> wm_widget_select C widget s = Some s'"
  then have inv: "selection_consistent s" and r: "wm_widget_select C widget s = Some s'" by simp_all
  show "selection_consistent s'"
  proof (cases "widget = NULL")
    case True
    then show ?thesis using inv r by (simp add: wm_widget_select_def)
  next
    case False
    then obtain w where w: "deref s widget = Some w"
      using r by (auto simp: wm_widget_select_def split: Option.bind_splits)
    show ?thesis
    proof (cases "flag_set (flag w) WM_WIDGET_SELECTED")
      case True
      then show ?thesis using inv r w False by (simp add: wm_widget_select_def)
    next
      case ns: False
      have tot: "0 \<le> tot_selected s" and len: "length (selection s) = nat (tot_selected s)"
        and dist: "distinct (selection s)"
        and mem: "\<And>p. p \<in> set (selection s) \<longleftrightarrow> (\<exists>w. deref s p = Some w \<and> flag_set (flag w) WM_WIDGET_SELECTED)"
        using inv by (simp_all add: selection_consistent_def)
      note res = select_result[OF w ns tot len r]
      have sel': "selection s' = selection s @ [widget]"
        using selection_after_select[OF len tot] res by blast
      have notin: "widget \<notin> set (selection s)" using mem[of widget] w ns by simp
      have fr: "\<And>p. case deref s p of
                 None \<Rightarrow> deref s' p = None
               | Some v \<Rightarrow> (\<exists>v'. deref s' p = Some v' \<and> idname v' = idname v \<and>
                     (flag_set (flag v') WM_WIDGET_SELECTED \<longleftrightarrow> p = widget \<or> flag_set (flag v) WM_WIDGET_SELECTED))"
        using res by blast
      have mem': "p \<in> set (selection s') \<longleftrightarrow> (\<exists>w. deref s' p = Some w \<and> flag_set (flag w) WM_WIDGET_SELECTED)" for p
        using fr[of p] mem[of p] sel' w by (cases "deref s p") auto
      have "0 \<le> tot_selected s'" "length (selection s') = nat (tot_selected s')"
        using res tot len sel' by (simp_all add: nat_add_distrib)
      moreover have "distinct (selection s')" using sel' dist notin by simp
      ultimately show ?thesis using mem' unfolding selection_consistent_def by blast
    qed
  qed
qed

theorem select_keeps_selection_consistent_witness:
  "wm_widget_select example_context 1
     ((example_state (Map.empty(1 \<mapsto> example_widget ''a'' WM_WIDGET_SELECTED None True,
                                2 \<mapsto> example_widget ''b'' 0 None True)))
        \<lparr>selected_widgets := Some [1], tot_selected := 1\<rparr>)
   = Some ((example_state (Map.empty(1 \<mapsto> example_widget ''a'' WM_WIDGET_SELECTED None True,
                                2 \<mapsto> example_widget ''b'' 0 None True)))
        \<lparr>selected_widgets := Some [1], tot_selected := 1\<rparr>) \<and>
   (\<exists>s'. wm_widget_select example_context 2
     ((example_state (Map.empty(1 \<mapsto> example_widget ''a'' WM_WIDGET_SELECTED None True,
                                2 \<mapsto> example_widget ''b'' 0 None True)))
        \<lparr>selected_widgets := Some [1], tot_selected := 1\<rparr>) = Some s' \<and> selection_consistent s')"
proof -
  let ?s = "(example_state (Map.empty(1 \<mapsto> example_widget ''a'' WM_WIDGET_SELECTED None True,
                                2 \<mapsto> example_widget ''b'' 0 None True)))
        \<lparr>selected_widgets := Some [1], tot_selected := 1\<rparr>"
  have d1: "deref ?s 1 = Some (example_widget ''a'' WM_WIDGET_SELECTED None True)"
    and d2: "deref ?s 2 = Some (example_widget ''b'' 0 None True)"
    by (simp_all add: deref_def)
  have f1: "flag_set (flag (example_widget ''a'' WM_WIDGET_SELECTED None True)) WM_WIDGET_SELECTED"
    and f2: "\<not> flag_set (flag (example_widget ''b'' 0 None True)) WM_WIDGET_SELECTED"
    by (simp_all add: flag_set_def)
  have sel: "selection ?s = [1]" by (simp add: selection_def)
  have "\<And>p. (p = 1) = (\<exists>w. deref ?s p = Some w \<and> flag_set (flag w) WM_WIDGET_SELECTED)"
    using f1 f2 by (auto simp: deref_def split: if_splits)
  then have cons: "selection_consistent ?s"
    unfolding selection_consistent_def sel by simp
  have "highlighted_widget ?s = NULL \<or> deref ?s (highlighted_widget ?s) \<noteq> None"
    by simp
  from select_Some[OF d2 f2 _ this, of example_context]
  obtain s' where s': "wm_widget_select example_context 2 ?s = Some s'"
    by auto
  note t = select_keeps_selection_consistent[of 1 ?s example_context]
    select_keeps_selection_consistent[of 2 ?s example_context s']
  show ?thesis using t d1 f1 cons s' by blast
qed

text \<open>
  The claim as stated fails: \<^verbatim>\<open>wm_widget_deselect\<close> removes the first entry whose
  \<^verbatim>\<open>idname\<close> equals that of the widget (\<^verbatim>\<open>widget_compare\<close>, lines 703--710), not the entry
  of the widget. Here the widget at address 1 is selected and the widget at address 2,
  of the same name and not selected, is selected and then deselected: the array was
  \<open>[1]\<close> and is \<open>[2]\<close> afterwards.
\<close>

theorem same_name_round_trip_counterexample:
  "selection ((example_state (Map.empty(1 \<mapsto> example_widget ''a'' WM_WIDGET_SELECTED None True,
                                        2 \<mapsto> example_widget ''a'' 0 None True)))
                \<lparr>selected_widgets := Some [1], tot_selected := 1\<rparr>) = [1] \<and>
   map_option selection
     (Option.bind
        (wm_widget_select example_context 2
           ((example_state (Map.empty(1 \<mapsto> example_widget ''a'' WM_WIDGET_SELECTED None True,
                                      2 \<mapsto> example_widget ''a'' 0 None True)))
              \<lparr>selected_widgets := Some [1], tot_selected := 1\<rparr>))
        (wm_widget_deselect example_context 2)) = Some [2]"
  by (simp add: selection_def wm_widget_select_def wm_widget_deselect_def Let_def deref_def
      flag_set_def MEM_reallocN_def wm_widgetmap_set_highlighted_widget_def store_def log_call_def
      remove_selected.simps shift_selected.simps widget_compare_def example_widget_def example_state_def
      example_context_def WM_WIDGET_SELECTED_def WM_WIDGET_HIGHLIGHT_def)

text \<open>
  C8 (amended). For a live widget that is not selected, in a state whose array holds the
  \<^verbatim>\<open>tot_selected\<close> selected widgets, none of them with the \<^verbatim>\<open>idname\<close> of the widget
  (\<^verbatim>\<open>wm_widget_deselect\<close> finds the entry by \<^verbatim>\<open>widget_compare\<close>):
  \<^verbatim>\<open>wm_widget_select\<close> followed by \<^verbatim>\<open>wm_widget_deselect\<close> on it both return, and
  afterwards the count and the selected entries are those from before the select, the
  selected flag of the widget is clear, and the selected flag of every widget is as
  before.
\<close>

theorem select_then_deselect_restores:
  assumes w: "deref s widget = Some w" and ns: "\<not> flag_set (flag w) WM_WIDGET_SELECTED"
    and tot: "0 \<le> tot_selected s" and len: "length (selection s) = nat (tot_selected s)"
    and names: "\<forall>p \<in> set (selection s). \<exists>v. deref s p = Some v \<and> idname v \<noteq> idname w"
    and hl: "highlighted_widget s = NULL \<or> deref s (highlighted_widget s) \<noteq> None"
  shows "\<exists>s1 s2. wm_widget_select C widget s = Some s1 \<and> wm_widget_deselect C widget s1 = Some s2 \<and>
           tot_selected s2 = tot_selected s \<and> selection s2 = selection s \<and>
           (\<exists>w2. deref s2 widget = Some w2 \<and> \<not> flag_set (flag w2) WM_WIDGET_SELECTED) \<and>
           (\<forall>p v. deref s p = Some v \<longrightarrow>
              (\<exists>v2. deref s2 p = Some v2 \<and>
                 flag_set (flag v2) WM_WIDGET_SELECTED = flag_set (flag v) WM_WIDGET_SELECTED))"
proof -
  obtain s1 where s1: "wm_widget_select C widget s = Some s1"
    using select_Some[OF w ns tot hl] by blast
  note res = select_result[OF w ns tot len s1]
  have tot1: "tot_selected s1 = tot_selected s + 1"
    and sel1: "selected_widgets s1 = Some (selection s @ [widget])" using res by simp_all
  have fr: "\<And>p. case deref s p of
                 None \<Rightarrow> deref s1 p = None
               | Some v \<Rightarrow> (\<exists>v'. deref s1 p = Some v' \<and> idname v' = idname v \<and>
                     (flag_set (flag v') WM_WIDGET_SELECTED \<longleftrightarrow> p = widget \<or> flag_set (flag v) WM_WIDGET_SELECTED))"
    using res by blast
  obtain w1 where w1: "deref s1 widget = Some w1" "idname w1 = idname w"
    using fr[of widget] w by auto
  have nn: "widget \<noteq> NULL" using w by (rule deref_Some_not_NULL)
  have names1: "\<forall>p \<in> set (selection s). \<exists>v. deref s1 p = Some v \<and> idname v \<noteq> idname w1"
  proof
    fix p assume "p \<in> set (selection s)"
    then obtain v where "deref s p = Some v" "idname v \<noteq> idname w" using names by blast
    then show "\<exists>v. deref s1 p = Some v \<and> idname v \<noteq> idname w1" using fr[of p] w1(2) by auto
  qed
  let ?sel = "selection s @ [widget]"
  have tot1': "tot_selected s1 = int (length (selection s)) + 1" using tot1 len tot by simp
  have rem: "remove_selected s1 widget 0 (tot_selected s1) ?sel = Some ?sel"
    using remove_selected_last[OF w1(1) names1, of 0] tot1' by simp
  let ?s' = "if tot_selected s1 \<le> 1 then s1\<lparr>selected_widgets := None, tot_selected := 0\<rparr>
             else s1\<lparr>selected_widgets := Some (MEM_reallocN (Some ?sel) (nat (tot_selected s1))),
                    tot_selected := tot_selected s1 - 1\<rparr>"
  let ?s2 = "log_call (ED_region_tag_redraw (ctx_region C))
               (store widget (w1\<lparr>flag := flag w1 AND NOT WM_WIDGET_SELECTED\<rparr>) ?s')"
  have d': "deref ?s' widget = Some w1" using w1(1) by simp
  have s2: "wm_widget_deselect C widget s1 = Some ?s2"
    using sel1 rem d' unfolding wm_widget_deselect_def Let_def
    by (simp split: if_splits)
  have t2: "tot_selected ?s2 = tot_selected s" using tot1 tot by auto
  have "MEM_reallocN (Some ?sel) (nat (tot_selected s1)) = ?sel"
    using tot1' by (simp add: MEM_reallocN_def)
  then have sl2: "selection ?s2 = selection s"
    using tot1 tot len by (auto simp: selection_def[of "log_call _ _"])
  have dw2: "deref ?s2 widget = Some (w1\<lparr>flag := flag w1 AND NOT WM_WIDGET_SELECTED\<rparr>)"
    using nn by (simp add: deref_store)
  have fl: "\<exists>v2. deref ?s2 p = Some v2 \<and>
                 flag_set (flag v2) WM_WIDGET_SELECTED = flag_set (flag v) WM_WIDGET_SELECTED"
    if pv: "deref s p = Some v" for p v
  proof (cases "p = widget")
    case True
    then show ?thesis using dw2 pv w ns by (simp add: flag_set_andnot_same)
  next
    case False
    then show ?thesis using fr[of p] pv nn by (auto simp: deref_store)
  qed
  have "\<exists>w2. deref ?s2 widget = Some w2 \<and> \<not> flag_set (flag w2) WM_WIDGET_SELECTED"
    using dw2 by (simp add: flag_set_andnot_same)
  then show ?thesis using s1 s2 t2 sl2 fl by blast
qed

theorem select_then_deselect_restores_witness:
  "\<exists>s1 s2. wm_widget_select example_context 2
     ((example_state (Map.empty(1 \<mapsto> example_widget ''a'' WM_WIDGET_SELECTED None True,
                                2 \<mapsto> example_widget ''b'' 0 None True)))
        \<lparr>selected_widgets := Some [1], tot_selected := 1\<rparr>) = Some s1 \<and>
     wm_widget_deselect example_context 2 s1 = Some s2 \<and> tot_selected s2 = 1 \<and> selection s2 = [1] \<and>
     (\<exists>w2. deref s2 2 = Some w2 \<and> \<not> flag_set (flag w2) WM_WIDGET_SELECTED)"
proof -
  let ?s = "(example_state (Map.empty(1 \<mapsto> example_widget ''a'' WM_WIDGET_SELECTED None True,
                                2 \<mapsto> example_widget ''b'' 0 None True)))
        \<lparr>selected_widgets := Some [1], tot_selected := 1\<rparr>"
  have d2: "deref ?s 2 = Some (example_widget ''b'' 0 None True)"
    by (simp add: deref_def)
  have f2: "\<not> flag_set (flag (example_widget ''b'' 0 None True)) WM_WIDGET_SELECTED"
    by (simp add: flag_set_def)
  have sel: "selection ?s = [1]" by (simp add: selection_def)
  have tot: "0 \<le> tot_selected ?s" and len: "length (selection ?s) = nat (tot_selected ?s)"
    unfolding sel by simp_all
  have names: "\<forall>p \<in> set (selection ?s). \<exists>v. deref ?s p = Some v \<and> idname v \<noteq> idname (example_widget ''b'' 0 None True)"
    unfolding sel by (simp add: deref_def)
  have hl: "highlighted_widget ?s = NULL \<or> deref ?s (highlighted_widget ?s) \<noteq> None"
    by simp
  from select_then_deselect_restores[OF d2 f2 tot len names hl, of example_context]
  obtain s1 s2 where "wm_widget_select example_context 2 ?s = Some s1"
    "wm_widget_deselect example_context 2 s1 = Some s2" "tot_selected s2 = tot_selected ?s"
    "selection s2 = selection ?s" "\<exists>w2. deref s2 2 = Some w2 \<and> \<not> flag_set (flag w2) WM_WIDGET_SELECTED"
    by blast
  then show ?thesis unfolding sel by (intro exI[of _ s1] exI[of _ s2]) simp
qed

section \<open>Proofs: activation\<close>

lemma activate_for_operator_result:
  assumes "deref s widget = Some w"
  shows "\<exists>s2. activate_for_operator name widget s = Some s2 \<and> active_widget s2 = widget \<and>
           trace s2 = trace s @ (if invoke w \<and> handler w then [Widget_invoke widget] else []) @
                      [WM_operator_name_call_ptr name widget] \<and>
           deref s2 widget = Some (if invoke w \<and> handler w then w\<lparr>flag := flag w OR WM_WIDGET_ACTIVE\<rparr> else w)"
  using assms deref_Some_not_NULL[OF assms]
  by (auto simp: activate_for_operator_def activate_widget_def deref_store Let_def)

lemma deactivate_widget_result:
  assumes "deref s widget = Some w"
  shows "\<exists>s' w'. deactivate_widget widget s = Some s' \<and> active_widget s' = active_widget s \<and>
           deref s' widget = Some w' \<and> \<not> flag_set (flag w') WM_WIDGET_ACTIVE \<and>
           interaction_data w' = NULL \<and>
           (interaction_data w \<noteq> NULL \<longrightarrow> Interaction_data_free widget \<in> set (trace s'))"
  using assms deref_Some_not_NULL[OF assms]
  by (auto simp: deactivate_widget_def deref_store flag_set_andnot_same Let_def)

text \<open>
  The claim as stated fails for a widget with a bound command and no invoke/handler
  pair: with an operator that is found and a dispatcher that leaves the widget map alone,
  the active slot holds the widget afterwards.
\<close>

theorem active_slot_without_callbacks_counterexample:
  "map_option active_widget
     (wm_widgetmap_set_active_widget every_operator dispatcher_idle example_context 1
        (example_state (Map.empty(1 \<mapsto> example_widget ''arrow'' 0 (Some ''TRANSFORM_OT_translate'') False))))
   = Some 1 \<and>
   \<not> (invoke (example_widget ''arrow'' 0 (Some ''TRANSFORM_OT_translate'') False) \<and>
      handler (example_widget ''arrow'' 0 (Some ''TRANSFORM_OT_translate'') False))"
  by (simp add: wm_widgetmap_set_active_widget_def activate_for_operator_def deref_def
        every_operator_def dispatcher_idle_def)

text \<open>
  C6 (amended). When a widget with a bound command is activated and the command is
  found, the command is called with the widget's parameter block in a state whose active
  slot holds the widget, whether or not the widget has an invoke/handler pair. The pair
  decides only whether, before that, the active flag of the widget is set and its invoke
  callback is called. The result is what the dispatcher leaves, rolled back when it
  leaves the active slot null.
\<close>

theorem activate_with_command:
  assumes "deref s widget = Some w" and "opname w = Some name" and "operatortype_find name"
  shows "\<exists>s2. activate_for_operator name widget s = Some s2 \<and> active_widget s2 = widget \<and>
           trace s2 = trace s @ (if invoke w \<and> handler w then [Widget_invoke widget] else []) @
                      [WM_operator_name_call_ptr name widget] \<and>
           deref s2 widget = Some (if invoke w \<and> handler w then w\<lparr>flag := flag w OR WM_WIDGET_ACTIVE\<rparr> else w) \<and>
           wm_widgetmap_set_active_widget operatortype_find operator_call C widget s =
             (if active_widget (operator_call name widget s2) = NULL
              then deactivate_widget widget (operator_call name widget s2)
              else Some (operator_call name widget s2))"
proof -
  obtain s2 where s2: "activate_for_operator name widget s = Some s2" "active_widget s2 = widget"
     "trace s2 = trace s @ (if invoke w \<and> handler w then [Widget_invoke widget] else []) @
                      [WM_operator_name_call_ptr name widget]"
     "deref s2 widget = Some (if invoke w \<and> handler w then w\<lparr>flag := flag w OR WM_WIDGET_ACTIVE\<rparr> else w)"
    using activate_for_operator_result[OF assms(1)] by blast
  have "wm_widgetmap_set_active_widget operatortype_find operator_call C widget s =
             (if active_widget (operator_call name widget s2) = NULL
              then deactivate_widget widget (operator_call name widget s2)
              else Some (operator_call name widget s2))"
    using assms s2(1) deref_Some_not_NULL[OF assms(1)]
    by (simp add: wm_widgetmap_set_active_widget_def Let_def)
  then show ?thesis using s2 by blast
qed

theorem activate_with_command_witness:
  "\<exists>s2. activate_for_operator ''TRANSFORM_OT_translate'' 1
          (example_state (Map.empty(1 \<mapsto> example_widget ''arrow'' 0 (Some ''TRANSFORM_OT_translate'') False)))
        = Some s2 \<and> active_widget s2 = 1 \<and>
        trace s2 = [WM_operator_name_call_ptr ''TRANSFORM_OT_translate'' 1] \<and>
        wm_widgetmap_set_active_widget every_operator dispatcher_idle example_context 1
          (example_state (Map.empty(1 \<mapsto> example_widget ''arrow'' 0 (Some ''TRANSFORM_OT_translate'') False)))
        = Some s2"
proof -
  let ?w = "example_widget ''arrow'' 0 (Some ''TRANSFORM_OT_translate'') False"
  let ?s = "example_state (Map.empty(1 \<mapsto> ?w))"
  have d: "deref ?s 1 = Some ?w" by (simp add: deref_def)
  have n: "opname ?w = Some ''TRANSFORM_OT_translate''" by simp
  have f: "every_operator ''TRANSFORM_OT_translate''" by (simp add: every_operator_def)
  from activate_with_command[where operatortype_find = every_operator and operator_call = dispatcher_idle
      and C = example_context, OF d n f]
  show ?thesis by (auto simp: dispatcher_idle_def)
qed

text \<open>
  C7. For a widget with a bound command that is not active before the call (its active
  flag is clear and it has no interaction data): when the command name is not found, and
  when the command is found and the dispatcher returns with the active slot null (and
  the widget still allocated), the call returns, and afterwards the active slot is null,
  the active flag of the widget is clear and its interaction data is null, released if
  the callbacks or the command had created any.
\<close>

theorem command_failure_rolls_back:
  assumes "deref s widget = Some w" and "opname w = Some name"
    and "\<not> flag_set (flag w) WM_WIDGET_ACTIVE" and "interaction_data w = NULL"
  shows "(\<not> operatortype_find name \<longrightarrow>
            (\<exists>s' w'. wm_widgetmap_set_active_widget operatortype_find operator_call C widget s = Some s' \<and>
                   active_widget s' = NULL \<and> deref s' widget = Some w' \<and>
                   \<not> flag_set (flag w') WM_WIDGET_ACTIVE \<and> interaction_data w' = NULL)) \<and>
         (\<forall>s2 w3. operatortype_find name \<and> activate_for_operator name widget s = Some s2 \<and>
                   active_widget (operator_call name widget s2) = NULL \<and>
                   deref (operator_call name widget s2) widget = Some w3 \<longrightarrow>
            (\<exists>s' w'. wm_widgetmap_set_active_widget operatortype_find operator_call C widget s = Some s' \<and>
                   active_widget s' = NULL \<and> deref s' widget = Some w' \<and>
                   \<not> flag_set (flag w') WM_WIDGET_ACTIVE \<and> interaction_data w' = NULL \<and>
                   (interaction_data w3 \<noteq> NULL \<longrightarrow> Interaction_data_free widget \<in> set (trace s'))))"
proof (intro conjI impI allI)
  assume "\<not> operatortype_find name"
  then have "wm_widgetmap_set_active_widget operatortype_find operator_call C widget s =
               Some ((log_call (Printf ''Widget error: operator not found'') s)\<lparr>active_widget := NULL\<rparr>)"
    using assms(1,2) deref_Some_not_NULL[OF assms(1)]
    by (simp add: wm_widgetmap_set_active_widget_def)
  moreover have "deref ((log_call (Printf ''Widget error: operator not found'') s)\<lparr>active_widget := NULL\<rparr>) widget = Some w"
    using assms(1) by simp
  ultimately show "\<exists>s' w'. wm_widgetmap_set_active_widget operatortype_find operator_call C widget s = Some s' \<and>
                   active_widget s' = NULL \<and> deref s' widget = Some w' \<and>
                   \<not> flag_set (flag w') WM_WIDGET_ACTIVE \<and> interaction_data w' = NULL"
    using assms(3,4) by simp
next
  fix s2 w3
  assume a: "operatortype_find name \<and> activate_for_operator name widget s = Some s2 \<and>
                   active_widget (operator_call name widget s2) = NULL \<and>
                   deref (operator_call name widget s2) widget = Some w3"
  let ?s3 = "operator_call name widget s2"
  have r: "wm_widgetmap_set_active_widget operatortype_find operator_call C widget s = deactivate_widget widget ?s3"
    using assms(1,2) a deref_Some_not_NULL[OF assms(1)]
    by (simp add: wm_widgetmap_set_active_widget_def Let_def)
  from a have "deref ?s3 widget = Some w3" by simp
  from deactivate_widget_result[OF this] r a
  show "\<exists>s' w'. wm_widgetmap_set_active_widget operatortype_find operator_call C widget s = Some s' \<and>
                   active_widget s' = NULL \<and> deref s' widget = Some w' \<and>
                   \<not> flag_set (flag w') WM_WIDGET_ACTIVE \<and> interaction_data w' = NULL \<and>
                   (interaction_data w3 \<noteq> NULL \<longrightarrow> Interaction_data_free widget \<in> set (trace s'))"
    by auto
qed

theorem command_failure_rolls_back_witness:
  "(\<exists>s' w'. wm_widgetmap_set_active_widget no_operator dispatcher_cancelled example_context 1
          (example_state (Map.empty(1 \<mapsto> example_widget ''arrow'' 0 (Some ''TRANSFORM_OT_translate'') True)))
        = Some s' \<and> active_widget s' = NULL \<and> deref s' 1 = Some w' \<and>
        \<not> flag_set (flag w') WM_WIDGET_ACTIVE \<and> interaction_data w' = NULL) \<and>
   (\<exists>s' w'. wm_widgetmap_set_active_widget every_operator dispatcher_cancelled example_context 1
          (example_state (Map.empty(1 \<mapsto> example_widget ''arrow'' 0 (Some ''TRANSFORM_OT_translate'') True)))
        = Some s' \<and> active_widget s' = NULL \<and> deref s' 1 = Some w' \<and>
        \<not> flag_set (flag w') WM_WIDGET_ACTIVE \<and> interaction_data w' = NULL)"
proof -
  let ?w = "example_widget ''arrow'' 0 (Some ''TRANSFORM_OT_translate'') True"
  let ?s = "example_state (Map.empty(1 \<mapsto> ?w))"
  have d: "deref ?s 1 = Some ?w" by (simp add: deref_def)
  have n: "opname ?w = Some ''TRANSFORM_OT_translate''" by simp
  have f: "\<not> flag_set (flag ?w) WM_WIDGET_ACTIVE" by (simp add: flag_set_def)
  have i: "interaction_data ?w = NULL" by simp
  obtain s2 where s2: "activate_for_operator ''TRANSFORM_OT_translate'' 1 ?s = Some s2"
      "deref s2 1 = Some (if invoke ?w \<and> handler ?w then ?w\<lparr>flag := flag ?w OR WM_WIDGET_ACTIVE\<rparr> else ?w)"
    using activate_for_operator_result[OF d] by blast
  have pre: "every_operator ''TRANSFORM_OT_translate'' \<and>
        activate_for_operator ''TRANSFORM_OT_translate'' 1 ?s = Some s2 \<and>
        active_widget (dispatcher_cancelled ''TRANSFORM_OT_translate'' 1 s2) = NULL \<and>
        deref (dispatcher_cancelled ''TRANSFORM_OT_translate'' 1 s2) 1 = Some (?w\<lparr>flag := flag ?w OR WM_WIDGET_ACTIVE\<rparr>)"
    using s2 by (simp add: every_operator_def dispatcher_cancelled_def)
  have nf: "\<not> no_operator ''TRANSFORM_OT_translate''" by (simp add: no_operator_def)
  note a = command_failure_rolls_back[where operatortype_find = no_operator
      and operator_call = dispatcher_cancelled and C = example_context, OF d n f i]
  note b = command_failure_rolls_back[where operatortype_find = every_operator
      and operator_call = dispatcher_cancelled and C = example_context, OF d n f i]
  from a nf have 1: "\<exists>s' w'. wm_widgetmap_set_active_widget no_operator dispatcher_cancelled example_context 1 ?s = Some s' \<and>
      active_widget s' = NULL \<and> deref s' 1 = Some w' \<and>
        \<not> flag_set (flag w') WM_WIDGET_ACTIVE \<and> interaction_data w' = NULL" by blast
  from b pre have 2: "\<exists>s' w'. wm_widgetmap_set_active_widget every_operator dispatcher_cancelled example_context 1 ?s = Some s' \<and>
      active_widget s' = NULL \<and> deref s' 1 = Some w' \<and>
        \<not> flag_set (flag w') WM_WIDGET_ACTIVE \<and> interaction_data w' = NULL" by blast
  show ?thesis using 1 2 by blast
qed

section \<open>Proofs: the two picking passes\<close>

lemma find_highlighted_3D_intern_result:
  "wm_widget_find_highlighted_3D_intern gpu_select visible event hotspot s =
     map_option (\<lambda>ret. (ret, log_call (GPU_select (pick_rect event hotspot)) s))
       (find_highlighted_3D_resolve (fst (gpu_select (pick_rect event hotspot) visible))
          (snd (gpu_select (pick_rect event hotspot) visible)))"
  by (cases "gpu_select (pick_rect event hotspot) visible")
     (auto simp: wm_widget_find_highlighted_3D_intern_def Let_def split: Option.bind_splits)

text \<open>
  The claim as stated fails on the refinement rectangle: for a cursor at (100, 50) and a
  first pass with a hit, the second rectangle reaches from 97.2 to 102.8 and from 47.2 to
  52.8, that is 2.8 px from the cursor to each side, twice the 1.4 px of the claim.
\<close>

theorem refinement_rectangle_counterexample:
  "map_option (trace \<circ> snd)
     (wm_widget_find_highlighted_3D example_gpu_select example_context \<lparr>mval = (100, 50)\<rparr>
        ((example_state (Map.empty(1 \<mapsto> example_widget ''arrow'' 0 None True)))
           \<lparr>widgetgroups := [example_group [1]]\<rparr>))
   = Some [GPU_select \<lparr>xmin = 93, xmax = 107, ymin = 43, ymax = 57\<rparr>,
           GPU_select \<lparr>xmin = 486 / 5, xmax = 514 / 5, ymin = 236 / 5, ymax = 264 / 5\<rparr>] \<and>
   (514 / 5 - 100 :: real) = 2 * (7 / 5)"
  by (simp add: wm_widget_find_highlighted_3D_def find_highlighted_3D_intern_result
        example_gpu_select_def example_group_def example_widget_def poll_ok_def deref_def
        flag_set_def WM_WIDGET_HIDDEN_def find_highlighted_3D_resolve_def buffer_at_def
        pick_rect_def BLI_findlink_def)

text \<open>
  C5 (amended). For every 3D pick query the first pass uses the rectangle reaching 7 px
  from the cursor to each side. Without a hit in the first pass there is no second pass
  and no widget is found. With a hit, the refinement pass runs on the rectangle reaching
  2.8 px (a fifth of 14) from the cursor to each side, and the id that is decoded is the
  refined one whenever the refinement has a hit, the one of the first pass otherwise.
\<close>

theorem picking_passes:
  assumes "wm_prepare_visible_widgets_3D C s (widgetgroups s) [] = Some visible"
    and "find_highlighted_3D_resolve (fst (gpu_select (pick_rect event 7) visible))
           (snd (gpu_select (pick_rect event 7) visible)) = Some ret"
  shows "(ret = - 1 \<longrightarrow>
            wm_widget_find_highlighted_3D gpu_select C event s =
              Some ((NULL, 0), log_call (GPU_select (pick_rect event 7)) s)) \<and>
         (ret \<noteq> - 1 \<longrightarrow>
            (\<forall>retsec. find_highlighted_3D_resolve (fst (gpu_select (pick_rect event (14 / 5)) visible))
                       (snd (gpu_select (pick_rect event (14 / 5)) visible)) = Some retsec \<longrightarrow>
               wm_widget_find_highlighted_3D gpu_select C event s =
                 map_option
                   (\<lambda>result. ((result, word_of_int ((if retsec \<noteq> - 1 then retsec else ret) AND 255)),
                       log_call (GPU_select (pick_rect event (14 / 5)))
                         (log_call (GPU_select (pick_rect event 7)) s)))
                   (BLI_findlink visible (drop_bit 8 (if retsec \<noteq> - 1 then retsec else ret)))))"
  using assms
  by (auto simp: wm_widget_find_highlighted_3D_def find_highlighted_3D_intern_result Let_def
           split: Option.bind_splits)

theorem picking_passes_witness:
  "wm_widget_find_highlighted_3D example_gpu_select example_context \<lparr>mval = (100, 50)\<rparr>
        ((example_state (Map.empty(1 \<mapsto> example_widget ''arrow'' 0 None True)))
           \<lparr>widgetgroups := [example_group [1]]\<rparr>)
   = Some ((1, 0),
       log_call (GPU_select (pick_rect \<lparr>mval = (100, 50)\<rparr> (14 / 5)))
         (log_call (GPU_select (pick_rect \<lparr>mval = (100, 50)\<rparr> 7))
            ((example_state (Map.empty(1 \<mapsto> example_widget ''arrow'' 0 None True)))
               \<lparr>widgetgroups := [example_group [1]]\<rparr>)))"
proof -
  let ?s = "(example_state (Map.empty(1 \<mapsto> example_widget ''arrow'' 0 None True)))
           \<lparr>widgetgroups := [example_group [1]]\<rparr>"
  let ?e = "\<lparr>mval = (100, 50)\<rparr>"
  have v: "wm_prepare_visible_widgets_3D example_context ?s (widgetgroups ?s) [] = Some [1]"
    by (simp add: example_group_def example_widget_def poll_ok_def deref_def flag_set_def
          WM_WIDGET_HIDDEN_def)
  have r: "find_highlighted_3D_resolve (fst (example_gpu_select (pick_rect ?e 7) [1]))
           (snd (example_gpu_select (pick_rect ?e 7) [1])) = Some 0"
    and r2: "find_highlighted_3D_resolve (fst (example_gpu_select (pick_rect ?e (14 / 5)) [1]))
           (snd (example_gpu_select (pick_rect ?e (14 / 5)) [1])) = Some 0"
    by (simp_all add: example_gpu_select_def find_highlighted_3D_resolve_def buffer_at_def)
  from picking_passes[where gpu_select = example_gpu_select and event = ?e, OF v r] r2 show ?thesis
    by (simp add: BLI_findlink_def)
qed

section \<open>Proofs: the update pass\<close>

lemma deref_heap_eq: "heap s' = heap s \<Longrightarrow> deref s' p = deref s p"
  by (simp add: deref_def)

lemma wm_widget_delete_result:
  assumes "wm_widget_delete p s = Some s1"
  shows "s1 = s\<lparr>heap := (heap s)(p := None), trace := trace s @ [Widget_data_free p, MEM_freeN p]\<rparr> \<and>
         deref s p \<noteq> None"
  using assms
  by (auto simp: wm_widget_delete_def wm_widget_data_free_def free_widget_def log_call_def
           split: Option.bind_splits)

lemma free_widget_result:
  assumes "free_widget p s = Some s1"
  shows "s1 = s\<lparr>heap := (heap s)(p := None), trace := trace s @ [MEM_freeN p]\<rparr> \<and> deref s p \<noteq> None"
  using assms
  by (auto simp: free_widget_def log_call_def split: Option.bind_splits)

text \<open>The first loop: only the heap and the trace change; flagged widgets stay.\<close>

lemma delete_widgets_result:
  assumes "delete_widgets ws (s, hl) = Some (s1, hl1)"
  shows "\<exists>h t. s1 = s\<lparr>heap := h, trace := trace s @ t\<rparr> \<and>
           (\<forall>p. h p = heap s p \<or> (h p = None \<and> p \<in> set ws \<and>
                  (\<exists>w. heap s p = Some w \<and> \<not> flag_set (flag w) WM_WIDGET_SELECTED \<and>
                        \<not> flag_set (flag w) WM_WIDGET_HIGHLIGHT))) \<and>
           (\<forall>p. MEM_freeN p \<in> set t \<longrightarrow> h p = None \<and> heap s p \<noteq> None \<and> p \<in> set ws) \<and>
           (\<forall>p. count_list t (MEM_freeN p) \<le> 1) \<and>
           (hl1 = hl \<or> (hl1 \<in> set ws \<and> (\<exists>w. deref s hl1 = Some w \<and> flag_set (flag w) WM_WIDGET_HIGHLIGHT \<and>
                  \<not> flag_set (flag w) WM_WIDGET_SELECTED)))"
  using assms
proof (induction ws arbitrary: s hl)
  case Nil
  then have "s1 = s\<lparr>heap := heap s, trace := trace s @ []\<rparr>" "hl1 = hl" by simp_all
  then show ?case by (intro exI[of _ "heap s"] exI[of _ "[]"]) simp
next
  case (Cons a ws)
  from Cons.prems obtain w where w: "deref s a = Some w"
    by (auto split: Option.bind_splits)
  then have a0: "a \<noteq> NULL" and hw: "heap s a = Some w" by (auto simp: deref_def split: if_splits)
  consider (sel) "flag_set (flag w) WM_WIDGET_SELECTED"
    | (hi) "\<not> flag_set (flag w) WM_WIDGET_SELECTED" "flag_set (flag w) WM_WIDGET_HIGHLIGHT"
    | (del) "\<not> flag_set (flag w) WM_WIDGET_SELECTED" "\<not> flag_set (flag w) WM_WIDGET_HIGHLIGHT"
    by blast
  then show ?case
  proof cases
    case sel
    then have "delete_widgets ws (s, hl) = Some (s1, hl1)" using Cons.prems w by simp
    from Cons.IH[OF this] show ?thesis by (elim exE conjE) (intro exI conjI, assumption, auto)
  next
    case hi
    then have "delete_widgets ws (s, a) = Some (s1, hl1)" using Cons.prems w by simp
    from Cons.IH[OF this] obtain h t where ht: "s1 = s\<lparr>heap := h, trace := trace s @ t\<rparr>"
      "\<forall>p. h p = heap s p \<or> (h p = None \<and> p \<in> set ws \<and>
                  (\<exists>w. heap s p = Some w \<and> \<not> flag_set (flag w) WM_WIDGET_SELECTED \<and>
                        \<not> flag_set (flag w) WM_WIDGET_HIGHLIGHT))"
      "\<forall>p. MEM_freeN p \<in> set t \<longrightarrow> h p = None \<and> heap s p \<noteq> None \<and> p \<in> set ws"
      "\<forall>p. count_list t (MEM_freeN p) \<le> 1"
      "hl1 = a \<or> (hl1 \<in> set ws \<and> (\<exists>w. deref s hl1 = Some w \<and> flag_set (flag w) WM_WIDGET_HIGHLIGHT \<and>
                  \<not> flag_set (flag w) WM_WIDGET_SELECTED))" by blast
    have "hl1 = hl \<or> (hl1 \<in> set (a # ws) \<and> (\<exists>w. deref s hl1 = Some w \<and> flag_set (flag w) WM_WIDGET_HIGHLIGHT \<and>
                  \<not> flag_set (flag w) WM_WIDGET_SELECTED))"
      using ht(5) w hi by auto
    moreover have "\<forall>p. h p = heap s p \<or> (h p = None \<and> p \<in> set (a # ws) \<and>
                  (\<exists>w. heap s p = Some w \<and> \<not> flag_set (flag w) WM_WIDGET_SELECTED \<and>
                        \<not> flag_set (flag w) WM_WIDGET_HIGHLIGHT))" using ht(2) by auto
    moreover have "\<forall>p. MEM_freeN p \<in> set t \<longrightarrow> h p = None \<and> heap s p \<noteq> None \<and> p \<in> set (a # ws)"
      using ht(3) by auto
    ultimately show ?thesis using ht(1,4) by blast
  next
    case del
    then obtain sa where sa: "wm_widget_delete a s = Some sa" "delete_widgets ws (sa, hl) = Some (s1, hl1)"
      using Cons.prems w by (auto split: Option.bind_splits)
    have sa_eq: "sa = s\<lparr>heap := (heap s)(a := None), trace := trace s @ [Widget_data_free a, MEM_freeN a]\<rparr>"
      using wm_widget_delete_result[OF sa(1)] by simp
    from Cons.IH[OF sa(2)] obtain h t where ht: "s1 = sa\<lparr>heap := h, trace := trace sa @ t\<rparr>"
      "\<forall>p. h p = heap sa p \<or> (h p = None \<and> p \<in> set ws \<and>
                  (\<exists>w. heap sa p = Some w \<and> \<not> flag_set (flag w) WM_WIDGET_SELECTED \<and>
                        \<not> flag_set (flag w) WM_WIDGET_HIGHLIGHT))"
      "\<forall>p. MEM_freeN p \<in> set t \<longrightarrow> h p = None \<and> heap sa p \<noteq> None \<and> p \<in> set ws"
      "\<forall>p. count_list t (MEM_freeN p) \<le> 1"
      "hl1 = hl \<or> (hl1 \<in> set ws \<and> (\<exists>w. deref sa hl1 = Some w \<and> flag_set (flag w) WM_WIDGET_HIGHLIGHT \<and>
                  \<not> flag_set (flag w) WM_WIDGET_SELECTED))" by blast
    let ?t = "[Widget_data_free a, MEM_freeN a] @ t"
    have 1: "s1 = s\<lparr>heap := h, trace := trace s @ ?t\<rparr>" using ht(1) sa_eq by simp
    have ha: "h a = None" using ht(2) sa_eq by (auto split: if_splits)
    have 2: "\<forall>p. h p = heap s p \<or> (h p = None \<and> p \<in> set (a # ws) \<and>
                  (\<exists>w. heap s p = Some w \<and> \<not> flag_set (flag w) WM_WIDGET_SELECTED \<and>
                        \<not> flag_set (flag w) WM_WIDGET_HIGHLIGHT))"
    proof
      fix p
      show "h p = heap s p \<or> (h p = None \<and> p \<in> set (a # ws) \<and>
                  (\<exists>w. heap s p = Some w \<and> \<not> flag_set (flag w) WM_WIDGET_SELECTED \<and>
                        \<not> flag_set (flag w) WM_WIDGET_HIGHLIGHT))"
      proof (cases "p = a")
        case True
        then show ?thesis using ha hw del by simp
      next
        case False
        then show ?thesis using ht(2)[rule_format, of p] sa_eq by auto
      qed
    qed
    have 3: "\<forall>p. MEM_freeN p \<in> set ?t \<longrightarrow> h p = None \<and> heap s p \<noteq> None \<and> p \<in> set (a # ws)"
      using ht(3) ha hw sa_eq by (auto split: if_splits)
    have "MEM_freeN a \<notin> set t" using ht(3) sa_eq by auto
    then have 4: "\<forall>p. count_list ?t (MEM_freeN p) \<le> 1" using ht(4) by (auto simp: count_list_0_iff)
    have 5: "hl1 = hl \<or> (hl1 \<in> set (a # ws) \<and> (\<exists>w. deref s hl1 = Some w \<and> flag_set (flag w) WM_WIDGET_HIGHLIGHT \<and>
                  \<not> flag_set (flag w) WM_WIDGET_SELECTED))"
      using ht(5) sa_eq by (auto simp: deref_def split: if_splits)
    show ?thesis using 1 2 3 4 5 by blast
  qed
qed

lemma register_widgets_result:
  assumes "register_widgets g ws s = (ps, s2)"
  shows "ps = [next_addr s ..< next_addr s + length ws] \<and>
         (\<exists>h. s2 = s\<lparr>heap := h, next_addr := next_addr s + length ws\<rparr> \<and>
              (\<forall>p. p < next_addr s \<or> next_addr s + length ws \<le> p \<longrightarrow> h p = heap s p) \<and>
              (\<forall>i < length ws. h (next_addr s + i) = Some ((ws ! i)\<lparr>wgroup := g\<rparr>)))"
  using assms
proof (induction ws arbitrary: s ps s2)
  case Nil
  then have "ps = []" "s2 = s\<lparr>heap := heap s, next_addr := next_addr s + length ([] :: wmWidget list)\<rparr>"
    by simp_all
  then show ?case by (intro conjI exI[of _ "heap s"]) simp_all
next
  case (Cons w ws)
  let ?s1 = "(store (next_addr s) (w\<lparr>wgroup := g\<rparr>) s)\<lparr>next_addr := next_addr s + 1\<rparr>"
  obtain ps' s' where r: "register_widgets g ws ?s1 = (ps', s')" by (cases "register_widgets g ws ?s1")
  then have ps: "ps = next_addr s # ps'" and s2: "s2 = s'" using Cons.prems by (simp_all add: Let_def)
  from Cons.IH[OF r] obtain h where h: "ps' = [next_addr ?s1 ..< next_addr ?s1 + length ws]"
    "s' = ?s1\<lparr>heap := h, next_addr := next_addr ?s1 + length ws\<rparr>"
    "\<forall>p. p < next_addr ?s1 \<or> next_addr ?s1 + length ws \<le> p \<longrightarrow> h p = heap ?s1 p"
    "\<forall>i < length ws. h (next_addr ?s1 + i) = Some ((ws ! i)\<lparr>wgroup := g\<rparr>)" by blast
  have n1: "next_addr ?s1 = Suc (next_addr s)" by simp
  have "[next_addr s ..< next_addr s + length (w # ws)] =
        next_addr s # [Suc (next_addr s) ..< Suc (next_addr s) + length ws]"
    by (simp add: upt_conv_Cons del: upt_Suc)
  then have 1: "ps = [next_addr s ..< next_addr s + length (w # ws)]"
    using ps h(1) n1 by (simp del: upt_Suc)
  have 2: "s2 = s\<lparr>heap := h, next_addr := next_addr s + length (w # ws)\<rparr>"
    using s2 h(2) by (simp add: store_def)
  have 3: "\<forall>p. p < next_addr s \<or> next_addr s + length (w # ws) \<le> p \<longrightarrow> h p = heap s p"
    using h(3) by (auto simp: store_def)
  have 4: "\<forall>i < length (w # ws). h (next_addr s + i) = Some (((w # ws) ! i)\<lparr>wgroup := g\<rparr>)"
  proof (intro allI impI)
    fix i assume i: "i < length (w # ws)"
    show "h (next_addr s + i) = Some (((w # ws) ! i)\<lparr>wgroup := g\<rparr>)"
    proof (cases i)
      case 0
      then show ?thesis using h(3)[rule_format, of "next_addr s"] by (simp add: store_def)
    next
      case (Suc j)
      then show ?thesis using h(4)[rule_format, of j] i by simp
    qed
  qed
  show ?case using 1 2 3 4 by blast
qed

lemma insert_widgets_result:
  assumes "insert_widgets ps s = Some s3" and "draw_widgets s = Some m"
  shows "\<exists>m3. s3 = s\<lparr>draw_widgets := Some m3\<rparr> \<and>
           (\<forall>k. m3 k = m k \<or> (\<exists>p \<in> set ps. m3 k = Some p \<and>
                  (\<exists>w. deref s p = Some w \<and> idname w = k \<and> \<not> flag_set (flag w) WM_WIDGET_HIDDEN)))"
  using assms
proof (induction ps arbitrary: s m)
  case Nil
  then have "s3 = s\<lparr>draw_widgets := Some m\<rparr>" by simp
  then show ?case by blast
next
  case (Cons a ps)
  from Cons.prems obtain w where w: "deref s a = Some w" by (auto split: Option.bind_splits)
  show ?case
  proof (cases "flag_set (flag w) WM_WIDGET_HIDDEN")
    case True
    then have "insert_widgets ps s = Some s3" using Cons.prems w by simp
    from Cons.IH[OF this Cons.prems(2)] show ?thesis by (elim exE conjE) (intro exI conjI, assumption, auto)
  next
    case False
    let ?s1 = "s\<lparr>draw_widgets := Some (m(idname w \<mapsto> a))\<rparr>"
    have r: "insert_widgets ps ?s1 = Some s3"
      using Cons.prems w False by (auto simp: ghash_reinsert_def split: Option.bind_splits)
    from Cons.IH[OF r] obtain m3 where m3: "s3 = ?s1\<lparr>draw_widgets := Some m3\<rparr>"
      "\<forall>k. m3 k = (m(idname w \<mapsto> a)) k \<or> (\<exists>p \<in> set ps. m3 k = Some p \<and>
                  (\<exists>w. deref ?s1 p = Some w \<and> idname w = k \<and> \<not> flag_set (flag w) WM_WIDGET_HIDDEN))"
      by auto
    have "\<forall>k. m3 k = m k \<or> (\<exists>p \<in> set (a # ps). m3 k = Some p \<and>
                  (\<exists>w. deref s p = Some w \<and> idname w = k \<and> \<not> flag_set (flag w) WM_WIDGET_HIDDEN))"
    proof
      fix k
      from m3(2)[rule_format, of k] w False
      show "m3 k = m k \<or> (\<exists>p \<in> set (a # ps). m3 k = Some p \<and>
                  (\<exists>w. deref s p = Some w \<and> idname w = k \<and> \<not> flag_set (flag w) WM_WIDGET_HIDDEN))"
        by (auto simp: deref_def split: if_splits)
    qed
    then show ?thesis using m3(1) by auto
  qed
qed

lemma poll_ok_widgets_update [simp]: "poll_ok C (wg\<lparr>widgets := ps\<rparr>) = poll_ok C wg"
  by (simp add: poll_ok_def)

lemma create_result:
  assumes "(case create (gtype wg) of None \<Rightarrow> ([], s1) | Some f \<Rightarrow> register_widgets (group_addr wg) (f C) s1) = (ps, s2)"
  shows "\<exists>h2 n2. s2 = s1\<lparr>heap := h2, next_addr := n2\<rparr> \<and> next_addr s1 \<le> n2 \<and>
           set ps = {next_addr s1 ..< n2} \<and>
           (\<forall>p. p < next_addr s1 \<or> n2 \<le> p \<longrightarrow> h2 p = heap s1 p)"
proof (cases "create (gtype wg)")
  case None
  then have "ps = []" "s2 = s1\<lparr>heap := heap s1, next_addr := next_addr s1\<rparr>" using assms by simp_all
  then show ?thesis by (intro exI[of _ "heap s1"] exI[of _ "next_addr s1"]) simp
next
  case (Some f)
  then have "register_widgets (group_addr wg) (f C) s1 = (ps, s2)" using assms by simp
  from register_widgets_result[OF this] show ?thesis by (elim conjE exE) (intro exI conjI, assumption, auto)
qed

lemma update_groups_result:
  assumes "update_groups C gs (s, hl) = Some (gs', s', hl')"
    and "draw_widgets s = Some m"
    and "\<forall>g \<in> set gs. \<forall>p \<in> set (widgets g). p < next_addr s"
  shows "\<exists>h t n m'. s' = s\<lparr>heap := h, next_addr := n, draw_widgets := Some m', trace := trace s @ t\<rparr> \<and>
     next_addr s \<le> n \<and>
     (\<forall>p. p < next_addr s \<longrightarrow> h p = heap s p \<or>
          (h p = None \<and> (\<exists>g \<in> set gs. poll_ok C g \<and> p \<in> set (widgets g)) \<and>
           (\<exists>w. heap s p = Some w \<and> \<not> flag_set (flag w) WM_WIDGET_SELECTED \<and>
                 \<not> flag_set (flag w) WM_WIDGET_HIGHLIGHT))) \<and>
     (\<forall>p. n \<le> p \<longrightarrow> h p = heap s p) \<and>
     (\<forall>p. MEM_freeN p \<in> set t \<longrightarrow> p < next_addr s \<and> h p = None \<and> heap s p \<noteq> None) \<and>
     (\<forall>p. count_list t (MEM_freeN p) \<le> 1) \<and>
     (\<forall>k p. m' k = Some p \<longrightarrow> m k = Some p \<or>
          (next_addr s \<le> p \<and> p < n \<and> p \<noteq> NULL \<and>
           (\<exists>w. h p = Some w \<and> idname w = k \<and> \<not> flag_set (flag w) WM_WIDGET_HIDDEN) \<and>
           (\<exists>g \<in> set gs'. p \<in> set (widgets g) \<and> poll_ok C g))) \<and>
     (hl' = hl \<or> (\<exists>g \<in> set gs. poll_ok C g \<and> hl' \<in> set (widgets g) \<and>
          (\<exists>w. deref s hl' = Some w \<and> flag_set (flag w) WM_WIDGET_HIGHLIGHT \<and>
                \<not> flag_set (flag w) WM_WIDGET_SELECTED)))"
  using assms
proof (induction gs arbitrary: s hl m gs' s' hl')
  case Nil
  then have "s' = s\<lparr>heap := heap s, next_addr := next_addr s, draw_widgets := Some m, trace := trace s @ []\<rparr>"
    "hl' = hl" "gs' = []" by simp_all
  then show ?case
    by (intro exI[of _ "heap s"] exI[of _ "[]"] exI[of _ "next_addr s"] exI[of _ m]) simp
next
  case (Cons g gs)
  let ?n0 = "next_addr s"
  have old_gs: "\<forall>g \<in> set gs. \<forall>p \<in> set (widgets g). p < ?n0" using Cons.prems(3) by simp
  have old_g: "\<forall>p \<in> set (widgets g). p < ?n0" using Cons.prems(3) by simp
  show ?case
  proof (cases "poll_ok C g")
    case False
    then obtain rest' where r: "update_groups C gs (s, hl) = Some (rest', s', hl')" and gs': "gs' = g # rest'"
      using Cons.prems(1) by (auto split: Option.bind_splits)
    from Cons.IH[OF r Cons.prems(2) old_gs] obtain h t n m' where
      ih: "s' = s\<lparr>heap := h, next_addr := n, draw_widgets := Some m', trace := trace s @ t\<rparr>"
        "next_addr s \<le> n"
        "\<forall>p. p < next_addr s \<longrightarrow> h p = heap s p \<or>
          (h p = None \<and> (\<exists>g \<in> set gs. poll_ok C g \<and> p \<in> set (widgets g)) \<and>
           (\<exists>w. heap s p = Some w \<and> \<not> flag_set (flag w) WM_WIDGET_SELECTED \<and>
                 \<not> flag_set (flag w) WM_WIDGET_HIGHLIGHT))"
        "\<forall>p. n \<le> p \<longrightarrow> h p = heap s p"
        "\<forall>p. MEM_freeN p \<in> set t \<longrightarrow> p < next_addr s \<and> h p = None \<and> heap s p \<noteq> None"
        "\<forall>p. count_list t (MEM_freeN p) \<le> 1"
        "\<forall>k p. m' k = Some p \<longrightarrow> m k = Some p \<or>
          (next_addr s \<le> p \<and> p < n \<and> p \<noteq> NULL \<and>
           (\<exists>w. h p = Some w \<and> idname w = k \<and> \<not> flag_set (flag w) WM_WIDGET_HIDDEN) \<and>
           (\<exists>g \<in> set rest'. p \<in> set (widgets g) \<and> poll_ok C g))"
        "hl' = hl \<or> (\<exists>g \<in> set gs. poll_ok C g \<and> hl' \<in> set (widgets g) \<and>
          (\<exists>w. deref s hl' = Some w \<and> flag_set (flag w) WM_WIDGET_HIGHLIGHT \<and>
                \<not> flag_set (flag w) WM_WIDGET_SELECTED))"
      by blast
    have a: "\<forall>p. p < next_addr s \<longrightarrow> h p = heap s p \<or>
          (h p = None \<and> (\<exists>g \<in> set (g # gs). poll_ok C g \<and> p \<in> set (widgets g)) \<and>
           (\<exists>w. heap s p = Some w \<and> \<not> flag_set (flag w) WM_WIDGET_SELECTED \<and>
                 \<not> flag_set (flag w) WM_WIDGET_HIGHLIGHT))"
      using ih(3) by auto
    have d: "\<forall>k p. m' k = Some p \<longrightarrow> m k = Some p \<or>
          (next_addr s \<le> p \<and> p < n \<and> p \<noteq> NULL \<and>
           (\<exists>w. h p = Some w \<and> idname w = k \<and> \<not> flag_set (flag w) WM_WIDGET_HIDDEN) \<and>
           (\<exists>g \<in> set gs'. p \<in> set (widgets g) \<and> poll_ok C g))"
      using ih(7) gs' by auto
    have e: "hl' = hl \<or> (\<exists>g \<in> set (g # gs). poll_ok C g \<and> hl' \<in> set (widgets g) \<and>
          (\<exists>w. deref s hl' = Some w \<and> flag_set (flag w) WM_WIDGET_HIGHLIGHT \<and>
                \<not> flag_set (flag w) WM_WIDGET_SELECTED))"
      using ih(8) by auto
    show ?thesis using ih(1,2,4,5,6) a d e by blast
  next
    case True
    obtain s1 hl1 ps s2 s3 rest' where
      del: "delete_widgets (widgets g) (s, hl) = Some (s1, hl1)"
      and cr: "(case create (gtype g) of None \<Rightarrow> ([], s1)
                | Some f \<Rightarrow> register_widgets (group_addr g) (f C) s1) = (ps, s2)"
      and ins: "insert_widgets ps s2 = Some s3"
      and rec: "update_groups C gs (s3, hl1) = Some (rest', s', hl')"
      and gs': "gs' = g\<lparr>widgets := ps\<rparr> # rest'"
      using Cons.prems(1) True
      by (auto simp: Let_def split: Option.bind_splits prod.splits)
    from delete_widgets_result[OF del] obtain h1 t1 where
      d1: "s1 = s\<lparr>heap := h1, trace := trace s @ t1\<rparr>"
        "\<forall>p. h1 p = heap s p \<or> (h1 p = None \<and> p \<in> set (widgets g) \<and>
                  (\<exists>w. heap s p = Some w \<and> \<not> flag_set (flag w) WM_WIDGET_SELECTED \<and>
                        \<not> flag_set (flag w) WM_WIDGET_HIGHLIGHT))"
        "\<forall>p. MEM_freeN p \<in> set t1 \<longrightarrow> h1 p = None \<and> heap s p \<noteq> None \<and> p \<in> set (widgets g)"
        "\<forall>p. count_list t1 (MEM_freeN p) \<le> 1"
        "hl1 = hl \<or> (hl1 \<in> set (widgets g) \<and> (\<exists>w. deref s hl1 = Some w \<and> flag_set (flag w) WM_WIDGET_HIGHLIGHT \<and>
                  \<not> flag_set (flag w) WM_WIDGET_SELECTED))"
      by blast
    have n1: "next_addr s1 = ?n0" using d1(1) by simp
    from create_result[OF cr] n1 obtain h2 n2 where
      c2: "s2 = s1\<lparr>heap := h2, next_addr := n2\<rparr>" "?n0 \<le> n2" "set ps = {?n0 ..< n2}"
        "\<forall>p. p < ?n0 \<or> n2 \<le> p \<longrightarrow> h2 p = h1 p"
      using d1(1) by auto
    have m2: "draw_widgets s2 = Some m" using c2(1) d1(1) Cons.prems(2) by simp
    from insert_widgets_result[OF ins m2] obtain m3 where
      i3: "s3 = s2\<lparr>draw_widgets := Some m3\<rparr>"
        "\<forall>k. m3 k = m k \<or> (\<exists>p \<in> set ps. m3 k = Some p \<and>
                  (\<exists>w. deref s2 p = Some w \<and> idname w = k \<and> \<not> flag_set (flag w) WM_WIDGET_HIDDEN))"
      by blast
    have s3: "s3 = s\<lparr>heap := h2, next_addr := n2, draw_widgets := Some m3, trace := trace s @ t1\<rparr>"
      using i3(1) c2(1) d1(1) by simp
    have n3: "next_addr s3 = n2" and h3: "heap s3 = h2" and tr3: "trace s3 = trace s @ t1"
      and m3: "draw_widgets s3 = Some m3" using s3 by simp_all
    have old3: "\<forall>g \<in> set gs. \<forall>p \<in> set (widgets g). p < next_addr s3"
      using old_gs c2(2) n3 by fastforce
    from Cons.IH[OF rec m3 old3] obtain h t n m' where
      ih: "s' = s3\<lparr>heap := h, next_addr := n, draw_widgets := Some m', trace := trace s3 @ t\<rparr>"
        "n2 \<le> n"
        "\<forall>p. p < n2 \<longrightarrow> h p = h2 p \<or>
          (h p = None \<and> (\<exists>g \<in> set gs. poll_ok C g \<and> p \<in> set (widgets g)) \<and>
           (\<exists>w. h2 p = Some w \<and> \<not> flag_set (flag w) WM_WIDGET_SELECTED \<and>
                 \<not> flag_set (flag w) WM_WIDGET_HIGHLIGHT))"
        "\<forall>p. n \<le> p \<longrightarrow> h p = h2 p"
        "\<forall>p. MEM_freeN p \<in> set t \<longrightarrow> p < n2 \<and> h p = None \<and> h2 p \<noteq> None"
        "\<forall>p. count_list t (MEM_freeN p) \<le> 1"
        "\<forall>k p. m' k = Some p \<longrightarrow> m3 k = Some p \<or>
          (n2 \<le> p \<and> p < n \<and> p \<noteq> NULL \<and>
           (\<exists>w. h p = Some w \<and> idname w = k \<and> \<not> flag_set (flag w) WM_WIDGET_HIDDEN) \<and>
           (\<exists>g \<in> set rest'. p \<in> set (widgets g) \<and> poll_ok C g))"
        "hl' = hl1 \<or> (\<exists>g \<in> set gs. poll_ok C g \<and> hl' \<in> set (widgets g) \<and>
          (\<exists>w. deref s3 hl' = Some w \<and> flag_set (flag w) WM_WIDGET_HIGHLIGHT \<and>
                \<not> flag_set (flag w) WM_WIDGET_SELECTED))"
      unfolding n3 h3 by blast
    have 1: "s' = s\<lparr>heap := h, next_addr := n, draw_widgets := Some m', trace := trace s @ (t1 @ t)\<rparr>"
      using ih(1) s3 by simp
    have 2: "next_addr s \<le> n" using c2(2) ih(2) by simp
    have later_old: "p < ?n0 \<and> h1 p = heap s p"
      if "\<exists>g \<in> set gs. poll_ok C g \<and> p \<in> set (widgets g)" "h2 p \<noteq> None" for p
    proof -
      have p: "p < ?n0" using that(1) old_gs by auto
      then have "h2 p = h1 p" using c2(4) by simp
      then show ?thesis using that(2) d1(2)[rule_format, of p] p by auto
    qed
    have 3: "\<forall>p. p < next_addr s \<longrightarrow> h p = heap s p \<or>
          (h p = None \<and> (\<exists>g \<in> set (g # gs). poll_ok C g \<and> p \<in> set (widgets g)) \<and>
           (\<exists>w. heap s p = Some w \<and> \<not> flag_set (flag w) WM_WIDGET_SELECTED \<and>
                 \<not> flag_set (flag w) WM_WIDGET_HIGHLIGHT))"
    proof (intro allI impI)
      fix p assume p: "p < next_addr s"
      then have p2: "p < n2" and h21: "h2 p = h1 p" using c2(2,4) by auto
      from ih(3)[rule_format, OF p2] d1(2)[rule_format, of p] h21 True
      show "h p = heap s p \<or>
          (h p = None \<and> (\<exists>g \<in> set (g # gs). poll_ok C g \<and> p \<in> set (widgets g)) \<and>
           (\<exists>w. heap s p = Some w \<and> \<not> flag_set (flag w) WM_WIDGET_SELECTED \<and>
                 \<not> flag_set (flag w) WM_WIDGET_HIGHLIGHT))"
        by (elim disjE conjE exE) (simp_all, metis+)
    qed
    have 4: "\<forall>p. n \<le> p \<longrightarrow> h p = heap s p"
    proof (intro allI impI)
      fix p assume p: "n \<le> p"
      then have "h p = h2 p" "h2 p = h1 p" using ih(4) c2(4) ih(2) by auto
      moreover have "p \<notin> set (widgets g)" using old_g p 2 by fastforce
      ultimately show "h p = heap s p" using d1(2)[rule_format, of p] by auto
    qed
    have 5: "\<forall>p. MEM_freeN p \<in> set (t1 @ t) \<longrightarrow> p < next_addr s \<and> h p = None \<and> heap s p \<noteq> None"
    proof (intro allI impI)
      fix p assume "MEM_freeN p \<in> set (t1 @ t)"
      then consider (a) "MEM_freeN p \<in> set t1" | (b) "MEM_freeN p \<in> set t" by auto
      then show "p < next_addr s \<and> h p = None \<and> heap s p \<noteq> None"
      proof cases
        case a
        then have f: "h1 p = None" "heap s p \<noteq> None" "p \<in> set (widgets g)" using d1(3) by auto
        then have p: "p < ?n0" using old_g by auto
        then have "h2 p = None" using c2(4) f(1) by simp
        then have "h p = None" using ih(3)[rule_format, of p] p c2(2) by auto
        then show ?thesis using p f(2) by simp
      next
        case b
        then have f: "p < n2" "h p = None" "h2 p \<noteq> None" using ih(5) by auto
        then have "\<exists>g \<in> set gs. poll_ok C g \<and> p \<in> set (widgets g)"
          using ih(3)[rule_format, of p] by auto
        from later_old[OF this f(3)] f c2(4) show ?thesis by auto
      qed
    qed
    have 6: "\<forall>p. count_list (t1 @ t) (MEM_freeN p) \<le> 1"
    proof
      fix p
      show "count_list (t1 @ t) (MEM_freeN p) \<le> 1"
      proof (cases "MEM_freeN p \<in> set t1")
        case True
        then have f: "h1 p = None" "p \<in> set (widgets g)" using d1(3) by auto
        then have "h2 p = None" using c2(4) old_g by auto
        then have "MEM_freeN p \<notin> set t" using ih(5) by auto
        then show ?thesis using d1(4)[rule_format, of p] by (simp add: count_list_0_iff)
      next
        case False
        then show ?thesis using ih(6)[rule_format, of p] by (simp add: count_list_0_iff)
      qed
    qed
    have 7: "\<forall>k p. m' k = Some p \<longrightarrow> m k = Some p \<or>
          (next_addr s \<le> p \<and> p < n \<and> p \<noteq> NULL \<and>
           (\<exists>w. h p = Some w \<and> idname w = k \<and> \<not> flag_set (flag w) WM_WIDGET_HIDDEN) \<and>
           (\<exists>g \<in> set gs'. p \<in> set (widgets g) \<and> poll_ok C g))"
    proof (intro allI impI)
      fix k p assume mk: "m' k = Some p"
      from ih(7)[rule_format, OF mk] consider
        (new) "n2 \<le> p" "p < n" "p \<noteq> NULL" "\<exists>w. h p = Some w \<and> idname w = k \<and> \<not> flag_set (flag w) WM_WIDGET_HIDDEN"
              "\<exists>g \<in> set rest'. p \<in> set (widgets g) \<and> poll_ok C g"
        | (m3) "m3 k = Some p" by blast
      then show "m k = Some p \<or>
          (next_addr s \<le> p \<and> p < n \<and> p \<noteq> NULL \<and>
           (\<exists>w. h p = Some w \<and> idname w = k \<and> \<not> flag_set (flag w) WM_WIDGET_HIDDEN) \<and>
           (\<exists>g \<in> set gs'. p \<in> set (widgets g) \<and> poll_ok C g))"
      proof cases
        case new
        then show ?thesis using c2(2) gs' by auto
      next
        case m3
        from i3(2)[rule_format, of k] m3 consider (old) "m k = Some p"
          | (here) "p \<in> set ps" "\<exists>w. deref s2 p = Some w \<and> idname w = k \<and> \<not> flag_set (flag w) WM_WIDGET_HIDDEN"
          by auto
        then show ?thesis
        proof cases
          case old
          then show ?thesis by simp
        next
          case here
          then have pr: "?n0 \<le> p" "p < n2" using c2(3) by auto
          from here(2) obtain w where w: "h2 p = Some w" "idname w = k" "\<not> flag_set (flag w) WM_WIDGET_HIDDEN"
            and p0: "p \<noteq> NULL"
            using c2(1) by (auto simp: deref_def split: if_splits)
          have "\<not> (\<exists>g \<in> set gs. poll_ok C g \<and> p \<in> set (widgets g))" using old_gs pr(1) by fastforce
          then have "h p = h2 p" using ih(3)[rule_format, of p] pr(2) by auto
          moreover have "g\<lparr>widgets := ps\<rparr> \<in> set gs'" using gs' by simp
          ultimately show ?thesis using w pr ih(2) here(1) True p0
            by (intro disjI2 conjI) (auto intro!: bexI[of _ "g\<lparr>widgets := ps\<rparr>"])
        qed
      qed
    qed
    have 8: "hl' = hl \<or> (\<exists>g \<in> set (g # gs). poll_ok C g \<and> hl' \<in> set (widgets g) \<and>
          (\<exists>w. deref s hl' = Some w \<and> flag_set (flag w) WM_WIDGET_HIGHLIGHT \<and>
                \<not> flag_set (flag w) WM_WIDGET_SELECTED))"
    proof -
      from ih(8) consider (same) "hl' = hl1"
        | (later) "\<exists>g \<in> set gs. poll_ok C g \<and> hl' \<in> set (widgets g)"
            "\<exists>w. deref s3 hl' = Some w \<and> flag_set (flag w) WM_WIDGET_HIGHLIGHT \<and>
                \<not> flag_set (flag w) WM_WIDGET_SELECTED" by blast
      then show ?thesis
      proof cases
        case same
        then show ?thesis using d1(5) True by auto
      next
        case later
        from later(2) obtain w where w: "deref s3 hl' = Some w" "flag_set (flag w) WM_WIDGET_HIGHLIGHT"
          "\<not> flag_set (flag w) WM_WIDGET_SELECTED" by blast
        then have "h2 hl' = Some w" "hl' \<noteq> NULL" using h3 by (auto simp: deref_def split: if_splits)
        moreover from this later_old[OF later(1)] c2(4) have "heap s hl' = h2 hl'" by auto
        ultimately have "deref s hl' = Some w" by (simp add: deref_def)
        then show ?thesis using later(1) w by auto
      qed
    qed
    show ?thesis using 1 2 3 4 5 6 7 8 by blast
  qed
qed

lemma same_widgets_refl [simp]: "same_widgets s s"
  by (auto simp: same_widgets_def split: option.splits)

lemma same_widgets_trans: "same_widgets s s1 \<Longrightarrow> same_widgets s1 s2 \<Longrightarrow> same_widgets s s2"
  unfolding same_widgets_def
  by (intro allI, erule_tac x = p in allE, erule_tac x = p in allE) (auto split: option.splits)

lemma same_widgets_heap_eq: "heap s' = heap s \<Longrightarrow> same_widgets s s'"
  by (auto simp: same_widgets_def split: option.splits)

lemma same_widgets_deref:
  "same_widgets s s' \<Longrightarrow> deref s' p = Some w' \<Longrightarrow> \<exists>w. deref s p = Some w \<and> idname w = idname w'"
  unfolding same_widgets_def
  by (erule_tac x = p in allE) (auto simp: deref_def split: option.splits if_splits)

lemma widget_highlight_update_result:
  assumes "widget_highlight_update old new s = Some s'"
  shows "\<exists>wo wn. deref s old = Some wo \<and> deref s new = Some wn \<and>
           s' = s\<lparr>heap := (heap s)(new \<mapsto> wn\<lparr>flag := flag wn OR WM_WIDGET_HIGHLIGHT,
                   highlighted_part := (if old = new then highlighted_part wn else highlighted_part wo)\<rparr>),
                 highlighted_widget := new\<rparr>"
  using assms
  by (auto simp: widget_highlight_update_def store_def deref_def Let_def split: Option.bind_splits if_splits)

lemma widget_highlight_update_frame:
  assumes "widget_highlight_update old new s = Some s'"
  shows "same_widgets s s' \<and> draw_widgets s' = draw_widgets s \<and> widgetgroups s' = widgetgroups s \<and>
         selected_widgets s' = selected_widgets s \<and> tot_selected s' = tot_selected s \<and>
         next_addr s' = next_addr s \<and> trace s' = trace s \<and> active_widget s' = active_widget s"
proof -
  from widget_highlight_update_result[OF assms] obtain wo wn where
    r0: "deref s old = Some wo" and r: "deref s new = Some wn"
       "s' = s\<lparr>heap := (heap s)(new \<mapsto> wn\<lparr>flag := flag wn OR WM_WIDGET_HIGHLIGHT,
                   highlighted_part := (if old = new then highlighted_part wn else highlighted_part wo)\<rparr>),
                 highlighted_widget := new\<rparr>" by (elim exE conjE) (rule that, assumption+)
  have "heap s new = Some wn" using r(1) by (auto simp: deref_def split: if_splits)
  then have "same_widgets s s'" using r(2)
    by (auto simp: same_widgets_def flag_set_def split: option.splits)
       (simp_all add: bit.conj_disj_distrib2 WM_WIDGET_HIGHLIGHT_def WM_WIDGET_HIDDEN_def)
  then show ?thesis using r(2) by simp
qed

lemma same_widgetsD:
  "same_widgets s s' \<Longrightarrow>
     (case heap s p of
        None \<Rightarrow> heap s' p = None
      | Some w \<Rightarrow> (\<exists>w'. heap s' p = Some w' \<and> idname w' = idname w \<and>
           flag_set (flag w') WM_WIDGET_HIDDEN = flag_set (flag w) WM_WIDGET_HIDDEN))"
  by (simp add: same_widgets_def)

lemma ghash_lookup_cong: "draw_widgets s' = draw_widgets s \<Longrightarrow> ghash_lookup s' k = ghash_lookup s k"
  by (simp add: ghash_lookup_def)

lemma flag_or_hidden:
  "flag_set (f OR WM_WIDGET_SELECTED) WM_WIDGET_HIDDEN = flag_set f WM_WIDGET_HIDDEN"
  "flag_set (f OR WM_WIDGET_HIGHLIGHT) WM_WIDGET_HIDDEN = flag_set f WM_WIDGET_HIDDEN"
  by (simp_all add: flag_set_def bit.conj_disj_distrib2 WM_WIDGET_HIGHLIGHT_def WM_WIDGET_HIDDEN_def
        WM_WIDGET_SELECTED_def)

text \<open>What lines 286--298 do, when the replacement is another widget than the old one.\<close>

lemma update_highlighted_result:
  assumes "update_highlighted hl s = Some s'" and "hl \<noteq> NULL"
  shows "\<exists>wo n. deref s hl = Some wo \<and> ghash_lookup s (idname wo) = Some n \<and>
           (n = NULL \<longrightarrow> s' = s\<lparr>heap := (heap s)(hl := None), trace := trace s @ [MEM_freeN hl],
                                  highlighted_widget := NULL\<rparr>) \<and>
           (n \<noteq> NULL \<and> n \<noteq> hl \<longrightarrow> (\<exists>wn. deref s n = Some wn \<and>
               s' = s\<lparr>heap := (heap s)(n \<mapsto> wn\<lparr>flag := flag wn OR WM_WIDGET_HIGHLIGHT,
                                                   highlighted_part := highlighted_part wo\<rparr>, hl := None),
                     highlighted_widget := n,
                     trace := trace s @ [Widget_data_free hl, MEM_freeN hl]\<rparr>))"
proof -
  from assms obtain wo n where wo: "deref s hl = Some wo" and n: "ghash_lookup s (idname wo) = Some n"
    by (auto simp: update_highlighted_def split: Option.bind_splits)
  have a: "s' = s\<lparr>heap := (heap s)(hl := None), trace := trace s @ [MEM_freeN hl],
                                  highlighted_widget := NULL\<rparr>" if "n = NULL"
  proof -
    have "free_widget hl s = Some (s\<lparr>heap := (heap s)(hl := None), trace := trace s @ [MEM_freeN hl]\<rparr>)"
      using wo by (simp add: free_widget_def log_call_def)
    then show ?thesis using assms wo n that by (simp add: update_highlighted_def)
  qed
  have b: "\<exists>wn. deref s n = Some wn \<and>
               s' = s\<lparr>heap := (heap s)(n \<mapsto> wn\<lparr>flag := flag wn OR WM_WIDGET_HIGHLIGHT,
                                                   highlighted_part := highlighted_part wo\<rparr>, hl := None),
                     highlighted_widget := n,
                     trace := trace s @ [Widget_data_free hl, MEM_freeN hl]\<rparr>" if nn: "n \<noteq> NULL" "n \<noteq> hl"
  proof -
    obtain s1 where s1: "widget_highlight_update hl n s = Some s1" "wm_widget_delete hl s1 = Some s'"
      using assms wo n nn by (auto simp: update_highlighted_def split: Option.bind_splits)
    from widget_highlight_update_result[OF s1(1)] wo nn obtain wn where wn: "deref s n = Some wn"
      "s1 = s\<lparr>heap := (heap s)(n \<mapsto> wn\<lparr>flag := flag wn OR WM_WIDGET_HIGHLIGHT,
                   highlighted_part := highlighted_part wo\<rparr>), highlighted_widget := n\<rparr>"
      by auto
    from wm_widget_delete_result[OF s1(2)] wn(2) have
      "s' = s\<lparr>heap := (heap s)(n \<mapsto> wn\<lparr>flag := flag wn OR WM_WIDGET_HIGHLIGHT,
                                                   highlighted_part := highlighted_part wo\<rparr>, hl := None),
                     highlighted_widget := n,
                     trace := trace s @ [Widget_data_free hl, MEM_freeN hl]\<rparr>" by simp
    then show ?thesis using wn(1) by blast
  qed
  show ?thesis using wo n a b by blast
qed

text \<open>What lines 286--298 leave alone: every widget but the old highlighted one.\<close>

lemma update_highlighted_frame:
  assumes "update_highlighted hl s = Some s'"
  shows "draw_widgets s' = draw_widgets s \<and> widgetgroups s' = widgetgroups s \<and>
         selected_widgets s' = selected_widgets s \<and> tot_selected s' = tot_selected s \<and>
         next_addr s' = next_addr s \<and> active_widget s' = active_widget s \<and>
         (hl \<noteq> NULL \<longrightarrow> heap s' hl = None \<and> heap s hl \<noteq> None) \<and>
         (\<forall>p. p \<noteq> hl \<longrightarrow>
            (case heap s p of
               None \<Rightarrow> heap s' p = None
             | Some w \<Rightarrow> (\<exists>w'. heap s' p = Some w' \<and> idname w' = idname w \<and>
                  flag_set (flag w') WM_WIDGET_HIDDEN = flag_set (flag w) WM_WIDGET_HIDDEN)))"
proof (cases "hl = NULL")
  case True
  then have "s' = s" using assms by (simp add: update_highlighted_def)
  then show ?thesis using True by (auto split: option.splits)
next
  case False
  from assms False obtain wo n where wo: "deref s hl = Some wo" and n: "ghash_lookup s (idname wo) = Some n"
    by (auto simp: update_highlighted_def split: Option.bind_splits)
  have hw: "heap s hl \<noteq> None" using wo by (auto simp: deref_def split: if_splits)
  show ?thesis
  proof (cases "n = NULL")
    case True
    from update_highlighted_result[OF assms False] wo n True
    have "s' = s\<lparr>heap := (heap s)(hl := None), trace := trace s @ [MEM_freeN hl],
                                  highlighted_widget := NULL\<rparr>" by auto
    then show ?thesis using hw by (auto split: option.splits)
  next
    case nn: False
    obtain s1 where s1: "widget_highlight_update hl n s = Some s1" "wm_widget_delete hl s1 = Some s'"
      using assms wo n nn False by (auto simp: update_highlighted_def split: Option.bind_splits)
    note f = widget_highlight_update_frame[OF s1(1)]
    from wm_widget_delete_result[OF s1(2)]
    have s': "s' = s1\<lparr>heap := (heap s1)(hl := None), trace := trace s1 @ [Widget_data_free hl, MEM_freeN hl]\<rparr>"
      by simp
    have "case heap s p of
               None \<Rightarrow> heap s' p = None
             | Some w \<Rightarrow> (\<exists>w'. heap s' p = Some w' \<and> idname w' = idname w \<and>
                  flag_set (flag w') WM_WIDGET_HIDDEN = flag_set (flag w) WM_WIDGET_HIDDEN)"
      if "p \<noteq> hl" for p
      using same_widgetsD[of s s1 p] f that by (simp add: s' split: option.splits)
    then show ?thesis using f s' hw False by simp
  qed
qed

lemma update_selected_at_frame:
  assumes "update_selected_at i s = Some s'" and "selected_widgets s = Some sel"
  shows "same_widgets s s' \<and> draw_widgets s' = draw_widgets s \<and> widgetgroups s' = widgetgroups s \<and>
         tot_selected s' = tot_selected s \<and> next_addr s' = next_addr s \<and>
         active_widget s' = active_widget s \<and> i < length sel \<and>
         (\<exists>wo n. deref s (sel ! i) = Some wo \<and> ghash_lookup s (idname wo) = Some n \<and>
            selected_widgets s' = Some (if n = NULL then sel else sel[i := n]))"
proof -
  from assms obtain wo n where i: "i < length sel" and wo: "deref s (sel ! i) = Some wo"
    and n: "ghash_lookup s (idname wo) = Some n"
    by (auto simp: update_selected_at_def split: Option.bind_splits if_splits)
  show ?thesis
  proof (cases "n = NULL")
    case True
    then have "s' = s" using assms i wo n by (simp add: update_selected_at_def)
    then show ?thesis using i wo n True assms(2) by auto
  next
    case False
    let ?s1 = "if flag_set (flag wo) WM_WIDGET_HIGHLIGHT then widget_highlight_update (sel ! i) n s else Some s"
    obtain s1 s2 wn where s1: "?s1 = Some s1" and s2: "wm_widget_data_free (sel ! i) s1 = Some s2"
      and wn: "deref s2 n = Some wn"
      and s': "s' = (store n (wn\<lparr>flag := flag wn OR WM_WIDGET_SELECTED\<rparr>) s2)\<lparr>selected_widgets := Some (sel[i := n])\<rparr>"
      using assms i wo n False
      by (auto simp: update_selected_at_def Let_def split: Option.bind_splits)
    have f1: "same_widgets s s1 \<and> draw_widgets s1 = draw_widgets s \<and> widgetgroups s1 = widgetgroups s \<and>
         selected_widgets s1 = selected_widgets s \<and> tot_selected s1 = tot_selected s \<and>
         next_addr s1 = next_addr s \<and> active_widget s1 = active_widget s"
    proof (cases "flag_set (flag wo) WM_WIDGET_HIGHLIGHT")
      case True
      then have "widget_highlight_update (sel ! i) n s = Some s1" using s1 by simp
      from widget_highlight_update_frame[OF this] widget_highlight_update_result[OF this]
      show ?thesis by auto
    next
      case False
      then show ?thesis using s1 by simp
    qed
    have s2_eq: "s2 = log_call (Widget_data_free (sel ! i)) s1"
      using s2 by (auto simp: wm_widget_data_free_def split: Option.bind_splits)
    have hn: "heap s1 n = Some wn" using wn s2_eq by (auto simp: deref_def split: if_splits)
    have "same_widgets s1 s'"
      using s' s2_eq hn
      by (auto simp: same_widgets_def store_def log_call_def flag_or_hidden split: option.splits)
    then have "same_widgets s s'" using f1 same_widgets_trans by blast
    then show ?thesis using f1 s' s2_eq i wo n False
      by (simp add: store_def log_call_def)
  qed
qed

lemma update_selected_frame:
  assumes "update_selected is s = Some s'" and "selected_widgets s = Some sel" and "distinct is"
  shows "same_widgets s s' \<and> draw_widgets s' = draw_widgets s \<and> widgetgroups s' = widgetgroups s \<and>
         tot_selected s' = tot_selected s \<and> next_addr s' = next_addr s \<and>
         active_widget s' = active_widget s \<and>
         (\<exists>sel'. selected_widgets s' = Some sel' \<and> length sel' = length sel \<and>
            (\<forall>j. j \<notin> set is \<longrightarrow> sel' ! j = sel ! j) \<and>
            (\<forall>i \<in> set is. \<forall>w. deref s (sel ! i) = Some w \<and> ghash_lookup s (idname w) = Some NULL \<longrightarrow>
                 sel' ! i = sel ! i))"
  using assms
proof (induction "is" arbitrary: s sel)
  case Nil
  then show ?case by simp
next
  case (Cons i "is")
  from Cons.prems(1) obtain s1 where s1: "update_selected_at i s = Some s1"
    and rest: "update_selected is s1 = Some s'" by (auto split: Option.bind_splits)
  from update_selected_at_frame[OF s1 Cons.prems(2)] obtain wo n where
    f: "same_widgets s s1" "draw_widgets s1 = draw_widgets s" "widgetgroups s1 = widgetgroups s"
       "tot_selected s1 = tot_selected s" "next_addr s1 = next_addr s" "active_widget s1 = active_widget s"
       "i < length sel" "deref s (sel ! i) = Some wo" "ghash_lookup s (idname wo) = Some n"
       "selected_widgets s1 = Some (if n = NULL then sel else sel[i := n])" by blast
  let ?sel1 = "if n = NULL then sel else sel[i := n]"
  have d: "distinct is" and ni: "i \<notin> set is" using Cons.prems(3) by simp_all
  from Cons.IH[OF rest f(10) d] obtain sel' where
    ih: "same_widgets s1 s'" "draw_widgets s' = draw_widgets s1" "widgetgroups s' = widgetgroups s1"
        "tot_selected s' = tot_selected s1" "next_addr s' = next_addr s1" "active_widget s' = active_widget s1"
        "selected_widgets s' = Some sel'" "length sel' = length ?sel1"
        "\<forall>j. j \<notin> set is \<longrightarrow> sel' ! j = ?sel1 ! j"
        "\<forall>k \<in> set is. \<forall>w. deref s1 (?sel1 ! k) = Some w \<and> ghash_lookup s1 (idname w) = Some NULL \<longrightarrow>
                 sel' ! k = ?sel1 ! k" by blast
  have 1: "same_widgets s s'" using f(1) ih(1) by (rule same_widgets_trans)
  have 2: "length sel' = length sel" using ih(8) by simp
  have 3: "\<forall>j. j \<notin> set (i # is) \<longrightarrow> sel' ! j = sel ! j" using ih(9) by auto
  have 4: "\<forall>k \<in> set (i # is). \<forall>w. deref s (sel ! k) = Some w \<and> ghash_lookup s (idname w) = Some NULL \<longrightarrow>
                 sel' ! k = sel ! k"
  proof (intro ballI allI impI)
    fix k w assume k: "k \<in> set (i # is)" and w: "deref s (sel ! k) = Some w \<and> ghash_lookup s (idname w) = Some NULL"
    show "sel' ! k = sel ! k"
    proof (cases "k = i")
      case True
      then have "n = NULL" using w f(8,9) by simp
      then show ?thesis using ih(9) ni True by simp
    next
      case False
      then have kin: "k \<in> set is" using k by simp
      have e: "?sel1 ! k = sel ! k" using False by simp
      from w have nn: "sel ! k \<noteq> NULL" and hw: "heap s (sel ! k) = Some w"
        by (auto simp: deref_def split: if_splits)
      from same_widgetsD[OF f(1), of "sel ! k"] hw obtain w1 where
        w1: "heap s1 (sel ! k) = Some w1" "idname w1 = idname w" by auto
      have "deref s1 (?sel1 ! k) = Some w1" using w1(1) nn e by (simp add: deref_def)
      moreover have "ghash_lookup s1 (idname w1) = Some NULL"
        using w w1(2) ghash_lookup_cong[OF f(2)] by simp
      ultimately have "sel' ! k = ?sel1 ! k" using ih(10) kin by blast
      then show ?thesis using e by simp
    qed
  qed
  show ?case using 1 2 3 4 f ih by simp
qed

lemma insert_widgets_fields:
  "insert_widgets ps s = Some s3 \<Longrightarrow> \<exists>c. s3 = s\<lparr>draw_widgets := c\<rparr>"
proof (induction ps arbitrary: s)
  case Nil
  then have "s3 = s\<lparr>draw_widgets := draw_widgets s\<rparr>" by simp
  then show ?case by blast
next
  case (Cons a ps)
  from Cons.prems obtain w where w: "deref s a = Some w" by (auto split: Option.bind_splits)
  show ?case
  proof (cases "flag_set (flag w) WM_WIDGET_HIDDEN")
    case True
    then show ?thesis using Cons w by simp
  next
    case False
    then obtain s1 where s1: "ghash_reinsert (idname w) a s = Some s1" "insert_widgets ps s1 = Some s3"
      using Cons.prems w by (auto split: Option.bind_splits)
    from s1(1) obtain c1 where "s1 = s\<lparr>draw_widgets := c1\<rparr>"
      by (auto simp: ghash_reinsert_def split: option.splits)
    moreover from Cons.IH[OF s1(2)] obtain c where "s3 = s1\<lparr>draw_widgets := c\<rparr>" by blast
    ultimately have "s3 = s\<lparr>draw_widgets := c\<rparr>" by simp
    then show ?thesis by blast
  qed
qed

lemma update_groups_fields:
  assumes "update_groups C gs (s, hl) = Some (gs', s', hl')"
  shows "selected_widgets s' = selected_widgets s \<and> tot_selected s' = tot_selected s \<and>
         active_widget s' = active_widget s \<and> highlighted_widget s' = highlighted_widget s"
  using assms
proof (induction gs arbitrary: s hl gs' s' hl')
  case Nil
  then show ?case by simp
next
  case (Cons g gs)
  show ?case
  proof (cases "poll_ok C g")
    case False
    then obtain rest' where "update_groups C gs (s, hl) = Some (rest', s', hl')"
      using Cons.prems by (auto split: Option.bind_splits)
    from Cons.IH[OF this] show ?thesis .
  next
    case True
    obtain s1 hl1 ps s2 s3 rest' where
      del: "delete_widgets (widgets g) (s, hl) = Some (s1, hl1)"
      and cr: "(case create (gtype g) of None \<Rightarrow> ([], s1)
                | Some f \<Rightarrow> register_widgets (group_addr g) (f C) s1) = (ps, s2)"
      and ins: "insert_widgets ps s2 = Some s3"
      and rec: "update_groups C gs (s3, hl1) = Some (rest', s', hl')"
      using Cons.prems True
      by (auto simp: Let_def split: Option.bind_splits prod.splits)
    from delete_widgets_result[OF del] obtain h1 t1 where "s1 = s\<lparr>heap := h1, trace := trace s @ t1\<rparr>"
      by blast
    moreover from create_result[OF cr] obtain h2 n2 where "s2 = s1\<lparr>heap := h2, next_addr := n2\<rparr>" by blast
    moreover from insert_widgets_fields[OF ins] obtain c where "s3 = s2\<lparr>draw_widgets := c\<rparr>" by blast
    ultimately show ?thesis using Cons.IH[OF rec] by simp
  qed
qed

text \<open>The pieces of the regeneration branch of the update.\<close>

lemma update_regenerate_cases:
  assumes "WM_widgetmap_widgets_update C s = Some s'" and "active_widget s = NULL"
    and "widgetgroups s \<noteq> []"
  obtains s0 gs s1 hl s3 where
    "s0 = (if draw_widgets s = None then s\<lparr>draw_widgets := Some Map.empty\<rparr> else s)"
    "update_groups C (widgetgroups s) (s0, NULL) = Some (gs, s1, hl)"
    "update_highlighted hl (s1\<lparr>widgetgroups := gs\<rparr>) = Some s3"
    "if selected_widgets s3 \<noteq> None then update_selected [0..<nat (tot_selected s3)] s3 = Some s' else s' = s3"
proof -
  let ?s0 = "if draw_widgets s = None then s\<lparr>draw_widgets := Some Map.empty\<rparr> else s"
  have a: "active_widget ?s0 = NULL" "widgetgroups ?s0 = widgetgroups s" using assms(2) by simp_all
  from assms(1) a assms(3) obtain gs s1 hl s3 where
    "update_groups C (widgetgroups s) (?s0, NULL) = Some (gs, s1, hl)"
    "update_highlighted hl (s1\<lparr>widgetgroups := gs\<rparr>) = Some s3"
    "if selected_widgets s3 \<noteq> None then update_selected [0..<nat (tot_selected s3)] s3 = Some s' else s' = s3"
    unfolding WM_widgetmap_widgets_update_def Let_def
    by (auto split: Option.bind_splits if_splits)
  then show ?thesis using that by blast
qed

lemma same_highlight_refl [simp]: "same_highlight s s"
  by (auto simp: same_highlight_def split: option.splits)









lemmas update_eval = WM_widgetmap_widgets_update_def Let_def deref_def flag_set_def poll_ok_def
  example_group_def example_unpolled_group_def example_factory_group_def example_factory_def never_def
  WM_WIDGET_SELECTED_def WM_WIDGET_HIGHLIGHT_def WM_WIDGET_HIDDEN_def
  update_highlighted_def update_selected_at_def ghash_lookup_def ghash_reinsert_def
  wm_widget_delete_def wm_widget_data_free_def free_widget_def widget_highlight_update_def
  store_def log_call_def

text \<open>
  An update pass on an example: the group holds the highlighted widget \<open>x\<close> at address
  1, and its factory registers \<open>x\<close> and the hidden \<open>y\<close> anew, at the addresses 5 and 6.
\<close>

lemma update_example:
  "WM_widgetmap_widgets_update example_context
     ((example_state (Map.empty(1 \<mapsto> example_widget ''x'' WM_WIDGET_HIGHLIGHT None True)))
        \<lparr>widgetgroups := [example_factory_group [1]], highlighted_widget := 1\<rparr>)
   = Some ((example_state (Map.empty(
          5 \<mapsto> (example_widget ''x'' WM_WIDGET_HIGHLIGHT None True)\<lparr>wgroup := 12\<rparr>,
          6 \<mapsto> (example_widget ''y'' WM_WIDGET_HIDDEN None True)\<lparr>wgroup := 12\<rparr>)))
        \<lparr>widgetgroups := [example_factory_group [5, 6]], highlighted_widget := 5,
          next_addr := 7, draw_widgets := Some (Map.empty(''x'' \<mapsto> 5)),
          trace := [Widget_data_free 1, MEM_freeN 1]\<rparr>)"
  apply (simp add: update_eval example_state_def example_widget_def)
  apply (rule ext)
  apply simp
  done

text \<open>The table of visible widgets after the regeneration branch, and after the branch of the active widget.\<close>

lemma cache_after_regenerate:
  assumes "WM_widgetmap_widgets_update C s = Some s'" and "active_widget s = NULL"
    and "draw_widgets s = None \<or> draw_widgets s = Some Map.empty"
    and "\<forall>g \<in> set (widgetgroups s). \<forall>p \<in> set (widgets g). p < next_addr s"
  shows "\<exists>m'. draw_widgets s' = Some m' \<and>
           (\<forall>k p. m' k = Some p \<longrightarrow>
              (\<exists>w. deref s' p = Some w \<and> idname w = k \<and> \<not> flag_set (flag w) WM_WIDGET_HIDDEN) \<and>
              (\<exists>g \<in> set (widgetgroups s'). p \<in> set (widgets g) \<and> poll_ok C g))"
proof (cases "widgetgroups s = []")
  case True
  then have "s' = s\<lparr>draw_widgets := Some Map.empty\<rparr>"
    using assms(1,2,3) unfolding WM_widgetmap_widgets_update_def Let_def
    by (auto split: if_splits)
  then show ?thesis by simp
next
  case False
  let ?s0 = "if draw_widgets s = None then s\<lparr>draw_widgets := Some Map.empty\<rparr> else s"
  from update_regenerate_cases[OF assms(1,2) False] obtain s0 gs s1 hl s3 where
    r: "s0 = ?s0"
      "update_groups C (widgetgroups s) (s0, NULL) = Some (gs, s1, hl)"
      "update_highlighted hl (s1\<lparr>widgetgroups := gs\<rparr>) = Some s3"
      "if selected_widgets s3 \<noteq> None then update_selected [0..<nat (tot_selected s3)] s3 = Some s' else s' = s3"
    by blast
  have m0: "draw_widgets s0 = Some Map.empty" and n0: "next_addr s0 = next_addr s"
    and h0: "heap s0 = heap s" using r(1) assms(3) by auto
  have old0: "\<forall>g \<in> set (widgetgroups s). \<forall>p \<in> set (widgets g). p < next_addr s0" using assms(4) n0 by simp
  from update_groups_result[OF r(2) m0 old0] obtain h t n m' where
    g: "s1 = s0\<lparr>heap := h, next_addr := n, draw_widgets := Some m', trace := trace s0 @ t\<rparr>"
       "\<forall>k p. m' k = Some p \<longrightarrow> Map.empty k = Some p \<or>
          (next_addr s0 \<le> p \<and> p < n \<and> p \<noteq> NULL \<and>
           (\<exists>w. h p = Some w \<and> idname w = k \<and> \<not> flag_set (flag w) WM_WIDGET_HIDDEN) \<and>
           (\<exists>g \<in> set gs. p \<in> set (widgets g) \<and> poll_ok C g))"
       "hl = NULL \<or> (\<exists>g \<in> set (widgetgroups s). poll_ok C g \<and> hl \<in> set (widgets g) \<and>
          (\<exists>w. deref s0 hl = Some w \<and> flag_set (flag w) WM_WIDGET_HIGHLIGHT \<and>
                \<not> flag_set (flag w) WM_WIDGET_SELECTED))"
    by blast
  let ?s2 = "s1\<lparr>widgetgroups := gs\<rparr>"
  note f3 = update_highlighted_frame[OF r(3)]
  have m3: "draw_widgets s3 = Some m'" and g3: "widgetgroups s3 = gs" using f3 g(1) by simp_all
  have last: "same_widgets s3 s' \<and> draw_widgets s' = draw_widgets s3 \<and> widgetgroups s' = widgetgroups s3"
  proof (cases "selected_widgets s3")
    case None
    then show ?thesis using r(4) by simp
  next
    case (Some sel)
    then have "update_selected [0..<nat (tot_selected s3)] s3 = Some s'" using r(4) by simp
    from update_selected_frame[OF this Some] show ?thesis by simp
  qed
  have "(\<exists>w. deref s' p = Some w \<and> idname w = k \<and> \<not> flag_set (flag w) WM_WIDGET_HIDDEN) \<and>
              (\<exists>g \<in> set (widgetgroups s'). p \<in> set (widgets g) \<and> poll_ok C g)"
    if mk: "m' k = Some p" for k p
  proof -
    from g(2)[rule_format, OF mk] obtain w where
      p: "next_addr s \<le> p" "p \<noteq> NULL" "h p = Some w" "idname w = k" "\<not> flag_set (flag w) WM_WIDGET_HIDDEN"
      and grp: "\<exists>g \<in> set gs. p \<in> set (widgets g) \<and> poll_ok C g"
      using n0 by auto
    have "p \<noteq> hl" using g(3) p(1,2) assms(4) by fastforce
    with f3 have "case heap ?s2 p of
               None \<Rightarrow> heap s3 p = None
             | Some w \<Rightarrow> (\<exists>w'. heap s3 p = Some w' \<and> idname w' = idname w \<and>
                  flag_set (flag w') WM_WIDGET_HIDDEN = flag_set (flag w) WM_WIDGET_HIDDEN)" by blast
    then obtain w3 where w3: "heap s3 p = Some w3" "idname w3 = k" "\<not> flag_set (flag w3) WM_WIDGET_HIDDEN"
      using g(1) p(3,4,5) by auto
    from same_widgetsD[of s3 s' p] last w3 obtain w' where
      "heap s' p = Some w'" "idname w' = k" "\<not> flag_set (flag w') WM_WIDGET_HIDDEN" by auto
    then have "\<exists>w. deref s' p = Some w \<and> idname w = k \<and> \<not> flag_set (flag w) WM_WIDGET_HIDDEN"
      using p(2) by (simp add: deref_def)
    then show ?thesis using grp last g3 by simp
  qed
  then show ?thesis using last m3 by simp
qed

lemma cache_after_active:
  assumes "WM_widgetmap_widgets_update C s = Some s'" and "active_widget s \<noteq> NULL"
    and "draw_widgets s = None \<or> draw_widgets s = Some Map.empty"
  shows "\<exists>m'. draw_widgets s' = Some m' \<and>
           (\<forall>k p. m' k = Some p \<longrightarrow> p = active_widget s \<and>
              (\<exists>w. deref s' p = Some w \<and> idname w = k \<and> \<not> flag_set (flag w) WM_WIDGET_HIDDEN))"
proof -
  let ?s0 = "if draw_widgets s = None then s\<lparr>draw_widgets := Some Map.empty\<rparr> else s"
  have m0: "draw_widgets ?s0 = Some Map.empty" using assms(3) by auto
  from assms(1,2) obtain w where w: "deref ?s0 (active_widget s) = Some w"
    and r: "(if \<not> flag_set (flag w) WM_WIDGET_HIDDEN then ghash_reinsert (idname w) (active_widget s) ?s0 else Some ?s0) = Some s'"
    unfolding WM_widgetmap_widgets_update_def Let_def
    by (auto split: Option.bind_splits)
  show ?thesis
  proof (cases "flag_set (flag w) WM_WIDGET_HIDDEN")
    case True
    then have "s' = ?s0" using r by simp
    then show ?thesis using m0 by simp
  next
    case False
    then have s': "s' = ?s0\<lparr>draw_widgets := Some (Map.empty(idname w \<mapsto> active_widget s))\<rparr>"
      using r m0 by (simp add: ghash_reinsert_def)
    have "deref s' (active_widget s) = Some w"
      using w assms(2) unfolding s' by (cases "draw_widgets s = None") (simp_all add: deref_def)
    moreover have "draw_widgets s' = Some (Map.empty(idname w \<mapsto> active_widget s))"
      unfolding s' by simp
    ultimately show ?thesis using False by (auto split: if_splits)
  qed
qed






section \<open>Proofs: what an update pass guarantees\<close>

text \<open>
  The claim as stated fails: a selected widget without a replacement of its name stays
  in the array, and the count stays. Here the group has no factory, so the selected
  widget \<open>a\<close> at address 1 finds no replacement (the table is empty afterwards); it has
  left the list of its group, and the array is still \<open>[1]\<close> with a count of 1.
\<close>

theorem selected_without_replacement_counterexample:
  "WM_widgetmap_widgets_update example_context
     ((example_state (Map.empty(1 \<mapsto> example_widget ''a'' WM_WIDGET_SELECTED None True)))
        \<lparr>widgetgroups := [example_group [1]], selected_widgets := Some [1], tot_selected := 1\<rparr>)
   = Some ((example_state (Map.empty(1 \<mapsto> example_widget ''a'' WM_WIDGET_SELECTED None True)))
        \<lparr>widgetgroups := [example_group []], selected_widgets := Some [1], tot_selected := 1,
          draw_widgets := Some Map.empty\<rparr>)"
  by (simp add: update_eval)

text \<open>
  C2 (amended). During \<^verbatim>\<open>WM_widgetmap_widgets_update\<close> the selection count is never
  changed and the array keeps its length; an entry whose widget has no replacement of
  the same name in the table of visible widgets is left as it is (the reference to the
  old widget stays in the array).
\<close>

theorem unmatched_selected_stays:
  assumes "WM_widgetmap_widgets_update C s = Some s'" and "selected_widgets s = Some sel"
  shows "tot_selected s' = tot_selected s \<and>
         (\<exists>sel'. selected_widgets s' = Some sel' \<and> length sel' = length sel \<and>
            (\<forall>i < nat (tot_selected s). \<forall>w.
                deref s' (sel ! i) = Some w \<and> ghash_lookup s' (idname w) = Some NULL \<longrightarrow>
                sel' ! i = sel ! i))"
proof -
  let ?s0 = "if draw_widgets s = None then s\<lparr>draw_widgets := Some Map.empty\<rparr> else s"
  have s0: "selected_widgets ?s0 = Some sel" "tot_selected ?s0 = tot_selected s" using assms(2) by simp_all
  consider (active) "active_widget s \<noteq> NULL" | (empty) "active_widget s = NULL" "widgetgroups s = []"
    | (regen) "active_widget s = NULL" "widgetgroups s \<noteq> []" by blast
  then show ?thesis
  proof cases
    case active
    then have "selected_widgets s' = selected_widgets s \<and> tot_selected s' = tot_selected s"
      using assms(1) unfolding WM_widgetmap_widgets_update_def Let_def
      by (auto simp: ghash_reinsert_def split: Option.bind_splits if_splits option.splits)
    then show ?thesis using assms(2) by auto
  next
    case empty
    then have "selected_widgets s' = selected_widgets s \<and> tot_selected s' = tot_selected s"
      using assms(1) unfolding WM_widgetmap_widgets_update_def Let_def
      by (auto split: if_splits)
    then show ?thesis using assms(2) by auto
  next
    case regen
    from update_regenerate_cases[OF assms(1) regen] obtain s0 gs s1 hl s3 where
      r: "s0 = ?s0"
        "update_groups C (widgetgroups s) (s0, NULL) = Some (gs, s1, hl)"
        "update_highlighted hl (s1\<lparr>widgetgroups := gs\<rparr>) = Some s3"
        "if selected_widgets s3 \<noteq> None then update_selected [0..<nat (tot_selected s3)] s3 = Some s' else s' = s3"
      by blast
    from update_groups_fields[OF r(2)] r(1) s0
    have f1: "selected_widgets s1 = Some sel" "tot_selected s1 = tot_selected s" by simp_all
    from update_highlighted_frame[OF r(3)] f1
    have f3: "selected_widgets s3 = Some sel" "tot_selected s3 = tot_selected s" by simp_all
    then have loop: "update_selected [0..<nat (tot_selected s)] s3 = Some s'" using r(4) by simp
    from update_selected_frame[OF loop f3(1)] obtain sel' where
      l: "same_widgets s3 s'" "draw_widgets s' = draw_widgets s3" "tot_selected s' = tot_selected s3"
        "selected_widgets s' = Some sel'" "length sel' = length sel"
        "\<forall>i \<in> set [0..<nat (tot_selected s)]. \<forall>w. deref s3 (sel ! i) = Some w \<and>
             ghash_lookup s3 (idname w) = Some NULL \<longrightarrow> sel' ! i = sel ! i"
      by auto
    have "sel' ! i = sel ! i"
      if i: "i < nat (tot_selected s)" and w: "deref s' (sel ! i) = Some w" "ghash_lookup s' (idname w) = Some NULL"
      for i w
    proof -
      from same_widgets_deref[OF l(1) w(1)] obtain w3 where w3: "deref s3 (sel ! i) = Some w3" "idname w3 = idname w"
        by blast
      moreover have "ghash_lookup s3 (idname w3) = Some NULL"
        using w(2) w3(2) ghash_lookup_cong[OF l(2)] by simp
      ultimately show ?thesis using l(6) i by auto
    qed
    then show ?thesis using l(3,4,5) f3(2) by auto
  qed
qed

theorem unmatched_selected_stays_witness:
  "\<exists>s' sel'. WM_widgetmap_widgets_update example_context
     ((example_state (Map.empty(1 \<mapsto> example_widget ''a'' WM_WIDGET_SELECTED None True)))
        \<lparr>widgetgroups := [example_group [1]], selected_widgets := Some [1], tot_selected := 1\<rparr>) = Some s' \<and>
     tot_selected s' = 1 \<and> selected_widgets s' = Some sel' \<and> length sel' = 1 \<and> sel' ! 0 = 1"
proof -
  let ?s = "(example_state (Map.empty(1 \<mapsto> example_widget ''a'' WM_WIDGET_SELECTED None True)))
        \<lparr>widgetgroups := [example_group [1]], selected_widgets := Some [1], tot_selected := 1\<rparr>"
  let ?s' = "(example_state (Map.empty(1 \<mapsto> example_widget ''a'' WM_WIDGET_SELECTED None True)))
        \<lparr>widgetgroups := [example_group []], selected_widgets := Some [1], tot_selected := 1,
          draw_widgets := Some Map.empty\<rparr>"
  have ev: "WM_widgetmap_widgets_update example_context ?s = Some ?s'" by (simp add: update_eval)
  have sel: "selected_widgets ?s = Some [1]" by simp
  have d: "deref ?s' ([1] ! 0) = Some (example_widget ''a'' WM_WIDGET_SELECTED None True) \<and>
           ghash_lookup ?s' (idname (example_widget ''a'' WM_WIDGET_SELECTED None True)) = Some NULL"
    by (simp add: deref_def ghash_lookup_def)
  from unmatched_selected_stays[OF ev sel] obtain sel' where
    s: "tot_selected ?s' = tot_selected ?s" "selected_widgets ?s' = Some sel'" "length sel' = length [1::nat]"
    "\<forall>i < nat (tot_selected ?s). \<forall>w. deref ?s' ([1] ! i) = Some w \<and> ghash_lookup ?s' (idname w) = Some NULL
        \<longrightarrow> sel' ! i = [1] ! i" by blast
  have "(0::nat) < nat (tot_selected ?s)" by simp
  with s(4) d have "sel' ! 0 = [1] ! 0" by blast
  then have "tot_selected ?s' = 1 \<and> selected_widgets ?s' = Some sel' \<and> length sel' = 1 \<and> sel' ! 0 = 1"
    using s(1,2,3) by auto
  then show ?thesis using ev by blast
qed

text \<open>
  The claim as stated fails in two ways. With an active widget the update puts that
  widget into the table without asking the poll of its group: here the poll of the group
  fails and the widget is in the table afterwards. And the update adds to the table it
  finds: an entry from before stays, here \<open>z\<close>, whose widget at address 1 is deleted by
  the pass, so that the entry leads to no widget.
\<close>

theorem cache_counterexample:
  "WM_widgetmap_widgets_update example_context
     ((example_state (Map.empty(1 \<mapsto> example_widget ''a'' 0 None True)))
        \<lparr>widgetgroups := [example_unpolled_group [1]], active_widget := 1\<rparr>)
   = Some ((example_state (Map.empty(1 \<mapsto> example_widget ''a'' 0 None True)))
        \<lparr>widgetgroups := [example_unpolled_group [1]], active_widget := 1,
          draw_widgets := Some (Map.empty(''a'' \<mapsto> 1))\<rparr>) \<and>
   \<not> poll_ok example_context (example_unpolled_group [1]) \<and>
   WM_widgetmap_widgets_update example_context
     ((example_state (Map.empty(1 \<mapsto> example_widget ''z'' 0 None True)))
        \<lparr>widgetgroups := [example_group [1]], draw_widgets := Some (Map.empty(''z'' \<mapsto> 1))\<rparr>)
   = Some ((example_state Map.empty)
        \<lparr>widgetgroups := [example_group []], draw_widgets := Some (Map.empty(''z'' \<mapsto> 1)),
          trace := [Widget_data_free 1, MEM_freeN 1]\<rparr>)"
proof -
  have "(Map.empty(1 \<mapsto> example_widget ''z'' 0 None True))(1 := None) = Map.empty" by (rule ext) simp
  then show ?thesis by (simp add: update_eval example_state_def)
qed

text \<open>
  C3 (amended). After a call to \<^verbatim>\<open>WM_widgetmap_widgets_update\<close> that starts with the table
  of visible widgets null or empty, every widget in the table is allocated, has the name
  it is filed under and is not hidden. Without an active widget (the widgets of the
  groups lying at addresses handed out before) it also belongs to a group of the map
  whose poll holds; with an active widget the table holds no other widget than the
  active one, whatever the poll of its group says.
\<close>

theorem cache_holds_visible_widgets:
  assumes "WM_widgetmap_widgets_update C s = Some s'"
    and "draw_widgets s = None \<or> draw_widgets s = Some Map.empty"
    and "active_widget s = NULL \<longrightarrow> (\<forall>g \<in> set (widgetgroups s). \<forall>p \<in> set (widgets g). p < next_addr s)"
  shows "\<exists>m'. draw_widgets s' = Some m' \<and>
           (\<forall>k p. m' k = Some p \<longrightarrow>
              (\<exists>w. deref s' p = Some w \<and> idname w = k \<and> \<not> flag_set (flag w) WM_WIDGET_HIDDEN) \<and>
              (if active_widget s = NULL
               then (\<exists>g \<in> set (widgetgroups s'). p \<in> set (widgets g) \<and> poll_ok C g)
               else p = active_widget s))"
proof (cases "active_widget s = NULL")
  case True
  with assms(3) have "\<forall>g \<in> set (widgetgroups s). \<forall>p \<in> set (widgets g). p < next_addr s" by simp
  from cache_after_regenerate[OF assms(1) True assms(2) this] True show ?thesis by simp
next
  case False
  from cache_after_active[OF assms(1) False assms(2)] False show ?thesis by auto
qed

theorem cache_holds_visible_widgets_witness:
  "(\<exists>s' m'. WM_widgetmap_widgets_update example_context
     ((example_state (Map.empty(1 \<mapsto> example_widget ''x'' WM_WIDGET_HIGHLIGHT None True)))
        \<lparr>widgetgroups := [example_factory_group [1]], highlighted_widget := 1\<rparr>) = Some s' \<and>
     draw_widgets s' = Some m' \<and> m' ''x'' = Some 5 \<and>
     (\<exists>w. deref s' 5 = Some w \<and> idname w = ''x'' \<and> \<not> flag_set (flag w) WM_WIDGET_HIDDEN) \<and>
     (\<exists>g \<in> set (widgetgroups s'). 5 \<in> set (widgets g) \<and> poll_ok example_context g)) \<and>
   (\<exists>s' m'. WM_widgetmap_widgets_update example_context
     ((example_state (Map.empty(1 \<mapsto> example_widget ''a'' 0 None True)))
        \<lparr>widgetgroups := [example_unpolled_group [1]], active_widget := 1\<rparr>) = Some s' \<and>
     draw_widgets s' = Some m' \<and> m' ''a'' = Some 1 \<and>
     (\<exists>w. deref s' 1 = Some w \<and> idname w = ''a'' \<and> \<not> flag_set (flag w) WM_WIDGET_HIDDEN))"
proof -
  let ?s = "(example_state (Map.empty(1 \<mapsto> example_widget ''x'' WM_WIDGET_HIGHLIGHT None True)))
        \<lparr>widgetgroups := [example_factory_group [1]], highlighted_widget := 1\<rparr>"
  obtain s' where ev: "WM_widgetmap_widgets_update example_context ?s = Some s'"
    and dw: "draw_widgets s' = Some (Map.empty(''x'' \<mapsto> 5))"
    using update_example by simp
  have a: "active_widget ?s = NULL" by simp
  have c: "draw_widgets ?s = None \<or> draw_widgets ?s = Some Map.empty" by simp
  have o: "active_widget ?s = NULL \<longrightarrow> (\<forall>g \<in> set (widgetgroups ?s). \<forall>p \<in> set (widgets g). p < next_addr ?s)"
    by (simp add: example_factory_group_def)
  from cache_holds_visible_widgets[OF ev c o] dw a
  have "(\<exists>w. deref s' 5 = Some w \<and> idname w = ''x'' \<and> \<not> flag_set (flag w) WM_WIDGET_HIDDEN) \<and>
     (\<exists>g \<in> set (widgetgroups s'). 5 \<in> set (widgets g) \<and> poll_ok example_context g)"
    by auto
  then have 1: "\<exists>s' m'. WM_widgetmap_widgets_update example_context ?s = Some s' \<and>
     draw_widgets s' = Some m' \<and> m' ''x'' = Some 5 \<and>
     (\<exists>w. deref s' 5 = Some w \<and> idname w = ''x'' \<and> \<not> flag_set (flag w) WM_WIDGET_HIDDEN) \<and>
     (\<exists>g \<in> set (widgetgroups s'). 5 \<in> set (widgets g) \<and> poll_ok example_context g)"
    using ev dw by (intro exI[of _ s'] exI[of _ "Map.empty(''x'' \<mapsto> 5)"]) simp
  let ?t = "(example_state (Map.empty(1 \<mapsto> example_widget ''a'' 0 None True)))
        \<lparr>widgetgroups := [example_unpolled_group [1]], active_widget := 1\<rparr>"
  let ?t' = "(example_state (Map.empty(1 \<mapsto> example_widget ''a'' 0 None True)))
        \<lparr>widgetgroups := [example_unpolled_group [1]], active_widget := 1,
          draw_widgets := Some (Map.empty(''a'' \<mapsto> 1))\<rparr>"
  have ev2: "WM_widgetmap_widgets_update example_context ?t = Some ?t'"
    by (simp add: update_eval)
  have c2: "draw_widgets ?t = None \<or> draw_widgets ?t = Some Map.empty" by simp
  have o2: "active_widget ?t = NULL \<longrightarrow> (\<forall>g \<in> set (widgetgroups ?t). \<forall>p \<in> set (widgets g). p < next_addr ?t)"
    by simp
  have dw2: "draw_widgets ?t' = Some (Map.empty(''a'' \<mapsto> 1))" by simp
  from cache_holds_visible_widgets[OF ev2 c2 o2] dw2
  have "\<exists>w. deref ?t' 1 = Some w \<and> idname w = ''a'' \<and> \<not> flag_set (flag w) WM_WIDGET_HIDDEN"
    by auto
  then have 2: "\<exists>s' m'. WM_widgetmap_widgets_update example_context ?t = Some s' \<and>
     draw_widgets s' = Some m' \<and> m' ''a'' = Some 1 \<and>
     (\<exists>w. deref s' 1 = Some w \<and> idname w = ''a'' \<and> \<not> flag_set (flag w) WM_WIDGET_HIDDEN)"
    using ev2 by (intro exI[of _ ?t'] exI[of _ "Map.empty(''a'' \<mapsto> 1)"]) simp
  show ?thesis using 1 2 by (rule conjI)
qed




end
